theory Spec2Isabelle
  imports Main "HOL-Library.Word"
begin

unbundle bit_operations_syntax

section \<open>Data model of tcpacket.h\<close>

type_synonym u8 = "8 word"
type_synonym u16 = "16 word"
type_synonym u32 = "32 word"

text \<open>
  The header is written for a 32-bit little-endian target: \<open>unsigned int\<close> and
  \<open>size_t\<close> are 32 bits wide, \<open>unsigned short\<close> is 16 bits wide. A \<open>float\<close> is
  represented by its IEEE-754 binary32 bit pattern, since the code only stores and
  loads it; an \<open>int32_t\<close> is a 32-bit word read in two's complement.
\<close>

type_synonym float32 = "32 word"
type_synonym int32 = "32 word"

text \<open>
  \<open>tcpacket_t\<close> is a union of the header struct and \<open>uint8_t data[TC_MAXLEN]\<close>: a packet
  is its raw byte array. Every function below reaches the bytes through pointers
  computed from the counts; an access that leaves the object is undefined behaviour in C
  and is the value \<open>None\<close> here.
\<close>

type_synonym tcpacket = "u8 list"

definition TC_SEAL0 :: u8 where "TC_SEAL0 = 0xA1"
definition TC_SEAL1 :: u8 where "TC_SEAL1 = 0x55"
definition TC_SEAL2 :: u8 where "TC_SEAL2 = 0xBB"
definition TC_SEAL3 :: u8 where "TC_SEAL3 = 0xA2"
definition TC_SEAL :: u32 where "TC_SEAL = 0xA2BB55A1"
definition TC_MAXLEN :: nat where "TC_MAXLEN = 128"
definition TC_HDRSIZE :: nat where "TC_HDRSIZE = 12"

subsection \<open>Little-endian loads and stores\<close>

definition le_bytes32 :: "u32 \<Rightarrow> u8 list" where
  "le_bytes32 w = [ucast w, ucast (drop_bit 8 w), ucast (drop_bit 16 w), ucast (drop_bit 24 w)]"

definition le_word32 :: "u8 list \<Rightarrow> u32" where
  "le_word32 bs =
     ucast (bs ! 0) OR push_bit 8 (ucast (bs ! 1)) OR
     push_bit 16 (ucast (bs ! 2)) OR push_bit 24 (ucast (bs ! 3))"

definition le_word16 :: "u8 list \<Rightarrow> u16" where
  "le_word16 bs = ucast (bs ! 0) OR push_bit 8 (ucast (bs ! 1))"

definition mem_write :: "tcpacket \<Rightarrow> nat \<Rightarrow> u8 list \<Rightarrow> tcpacket option" where
  "mem_write pkt off bs =
     (if off + length bs \<le> length pkt
      then Some (take off pkt @ bs @ drop (off + length bs) pkt)
      else None)"

definition mem_read :: "tcpacket \<Rightarrow> nat \<Rightarrow> nat \<Rightarrow> u8 list option" where
  "mem_read pkt off n =
     (if off + n \<le> length pkt then Some (take n (drop off pkt)) else None)"

definition store32 :: "tcpacket \<Rightarrow> nat \<Rightarrow> u32 \<Rightarrow> tcpacket option" where
  "store32 pkt off v = mem_write pkt off (le_bytes32 v)"

definition load32 :: "tcpacket \<Rightarrow> nat \<Rightarrow> u32 option" where
  "load32 pkt off = map_option le_word32 (mem_read pkt off 4)"

subsection \<open>Header fields of \<open>tcpacket_t.packet\<close>\<close>

definition tc_seal :: "tcpacket \<Rightarrow> u32" where
  "tc_seal pkt = le_word32 (take 4 pkt)"

definition tc_crc :: "tcpacket \<Rightarrow> u16" where
  "tc_crc pkt = le_word16 (take 2 (drop 4 pkt))"

definition tc_cmd :: "tcpacket \<Rightarrow> u8" where
  "tc_cmd pkt = pkt ! 6"

definition tc_seq :: "tcpacket \<Rightarrow> u8" where
  "tc_seq pkt = pkt ! 7"

definition tc_sts :: "tcpacket \<Rightarrow> u8" where
  "tc_sts pkt = pkt ! 8"

definition tc_fparams :: "tcpacket \<Rightarrow> u8" where
  "tc_fparams pkt = pkt ! 9"

definition tc_iparams :: "tcpacket \<Rightarrow> u8" where
  "tc_iparams pkt = pkt ! 10"

definition tc_sparams :: "tcpacket \<Rightarrow> u8" where
  "tc_sparams pkt = pkt ! 11"

definition set_tc_seal :: "tcpacket \<Rightarrow> u32 \<Rightarrow> tcpacket" where
  "set_tc_seal pkt v = le_bytes32 v @ drop 4 pkt"

definition set_tc_fparams :: "tcpacket \<Rightarrow> u8 \<Rightarrow> tcpacket" where
  "set_tc_fparams pkt v = pkt[9 := v]"

definition set_tc_iparams :: "tcpacket \<Rightarrow> u8 \<Rightarrow> tcpacket" where
  "set_tc_iparams pkt v = pkt[10 := v]"

definition set_tc_sparams :: "tcpacket \<Rightarrow> u8 \<Rightarrow> tcpacket" where
  "set_tc_sparams pkt v = pkt[11 := v]"

section \<open>crc16\<close>

text \<open>
  The inner \<open>for\<close> loop over the eight bits of one byte, with its counter \<open>i\<close>, the
  shifted byte \<open>data\<close> and the register \<open>crc\<close>; then the \<open>do ... while (--length)\<close> loop over
  the bytes at \<open>data_p\<close>, which reads one byte before it tests the count.
\<close>

definition CRC16_POLY :: u32 where
  "CRC16_POLY = 0x8408"

function crc16_bits :: "u8 \<Rightarrow> u32 \<Rightarrow> u32 \<Rightarrow> u32" where
  "crc16_bits i data crc =
     (if i < 8
      then crc16_bits (i + 1) (drop_bit 1 data)
             (if (crc AND 0x0001) XOR (data AND 0x0001) \<noteq> 0
              then drop_bit 1 crc XOR CRC16_POLY
              else drop_bit 1 crc)
      else crc)"
  by pat_completeness auto
termination
proof (relation "measure (\<lambda>(i, data, crc). 8 - unat i)")
  show "wf (measure (\<lambda>(i :: u8, data :: u32, crc :: u32). 8 - unat i))"
    by simp
next
  fix i :: u8 and data crc :: u32
  assume "i < 8"
  then have "unat i < 8"
    by (simp add: word_less_nat_alt)
  then have "unat (i + 1) = unat i + 1"
    by (simp add: unat_word_ariths)
  with \<open>unat i < 8\<close>
  show "((i + 1, drop_bit 1 data,
          if (crc AND 0x0001) XOR (data AND 0x0001) \<noteq> 0
          then drop_bit 1 crc XOR CRC16_POLY else drop_bit 1 crc),
         (i, data, crc)) \<in> measure (\<lambda>(i, data, crc). 8 - unat i)"
    by simp
qed

declare crc16_bits.simps [simp del]

function crc16_loop :: "u8 list \<Rightarrow> u16 \<Rightarrow> u32 \<Rightarrow> u32 option" where
  "crc16_loop [] len crc = None"
| "crc16_loop (b # data_p) len crc =
     (let crc' = crc16_bits 0 (0xff AND ucast b) crc;
          len' = len - 1
      in if len' \<noteq> 0 then crc16_loop data_p len' crc' else Some crc')"
  by pat_completeness auto
termination
  by (relation "measure (\<lambda>(data_p, len, crc). length data_p)") simp_all

definition crc16 :: "u8 list \<Rightarrow> u16 \<Rightarrow> u16 option" where
  "crc16 data_p len =
     (let crc = 0xffff :: u32 in
      if len = 0 then Some (ucast (NOT crc))
      else case crc16_loop data_p len crc of
             None \<Rightarrow> None
           | Some crc1 \<Rightarrow>
               (let crc2 = NOT crc1;
                    data = crc2;
                    crc3 = push_bit 8 crc2 OR (drop_bit 8 data AND 0xff)
                in Some (ucast crc3)))"

section \<open>Packet construction and access\<close>

text \<open>\<open>memset(pkt, 0, sizeof(tcpacket_t))\<close> overwrites all 128 bytes, then the seal is stored.\<close>

definition tcpkt_init :: "tcpacket \<Rightarrow> tcpacket" where
  "tcpkt_init pkt = set_tc_seal (replicate TC_MAXLEN 0) TC_SEAL"

definition tcpkt_size :: "tcpacket \<Rightarrow> u32" where
  "tcpkt_size pkt =
     of_nat TC_HDRSIZE + ucast (tc_fparams pkt) * 4 + ucast (tc_iparams pkt) * 4
       + ucast (tc_sparams pkt)"

definition tcpkt_addfloat :: "tcpacket \<Rightarrow> float32 \<Rightarrow> tcpacket option" where
  "tcpkt_addfloat pkt v =
     (let ptr = TC_HDRSIZE + unat (tc_fparams pkt) * 4 in
      case store32 pkt ptr v of
        None \<Rightarrow> None
      | Some pkt' \<Rightarrow> Some (set_tc_fparams pkt' (tc_fparams pkt' + 1)))"

definition tcpkt_addint :: "tcpacket \<Rightarrow> int32 \<Rightarrow> tcpacket option" where
  "tcpkt_addint pkt v =
     (let ptr = TC_HDRSIZE + unat (tc_fparams pkt) * 4 + unat (tc_iparams pkt) * 4 in
      case store32 pkt ptr v of
        None \<Rightarrow> None
      | Some pkt' \<Rightarrow> Some (set_tc_iparams pkt' (tc_iparams pkt' + 1)))"

text \<open>
  A \<open>char *\<close> argument is the memory it points to; the C string there ends at the first
  zero byte, and a region without one is read past its end.
\<close>

definition strlen :: "u8 list \<Rightarrow> nat option" where
  "strlen str = (if 0 \<in> set str then Some (length (takeWhile (\<lambda>c. c \<noteq> 0) str)) else None)"

definition tcpkt_addstring :: "tcpacket \<Rightarrow> u8 list \<Rightarrow> tcpacket option" where
  "tcpkt_addstring pkt str =
     (let ptr = TC_HDRSIZE + unat (tc_fparams pkt) * 4 + unat (tc_iparams pkt) * 4 in
      case strlen str of
        None \<Rightarrow> None
      | Some n \<Rightarrow>
          (case mem_write pkt ptr (take (n + 1) str) of
             None \<Rightarrow> None
           | Some pkt' \<Rightarrow> Some (set_tc_sparams pkt' (of_nat (n + 1)))))"

text \<open>
  \<open>idx\<close> is an \<open>int\<close>; \<open>idx * sizeof(float)\<close> is computed in the 32-bit \<open>size_t\<close> and added
  to the 32-bit address \<open>pkt + TC_HDRSIZE\<close>. Both wrap around, so \<open>ptr\<close>, the address
  relative to \<open>pkt\<close>, is a 32-bit word: a negative index gives a slot before offset 12.
\<close>

definition tcpkt_getfloat :: "tcpacket \<Rightarrow> int32 \<Rightarrow> float32 option" where
  "tcpkt_getfloat pkt idx =
     (let ptr = (of_nat TC_HDRSIZE :: u32) + idx * 4 in load32 pkt (unat ptr))"

definition tcpkt_getint :: "tcpacket \<Rightarrow> int32 \<Rightarrow> int32 option" where
  "tcpkt_getint pkt idx =
     (let ptr = (of_nat TC_HDRSIZE :: u32) + ucast (tc_fparams pkt) * 4 + idx * 4
      in load32 pkt (unat ptr))"

text \<open>\<open>tcpkt_getstring\<close> returns a pointer into the packet: its offset.\<close>

definition tcpkt_getstring :: "tcpacket \<Rightarrow> nat" where
  "tcpkt_getstring pkt = TC_HDRSIZE + unat (tc_fparams pkt) * 4 + unat (tc_iparams pkt) * 4"

text \<open>Reading the returned pointer as a C string.\<close>

definition c_string_at :: "tcpacket \<Rightarrow> nat \<Rightarrow> u8 list option" where
  "c_string_at pkt ptr =
     (if 0 \<in> set (drop ptr pkt) then Some (takeWhile (\<lambda>c. c \<noteq> 0) (drop ptr pkt)) else None)"

section \<open>The CRC as the specification words it\<close>

text \<open>
  A 16-bit register starting at \<open>0xFFFF\<close>; the bits of each byte enter LSB first; the
  register is complemented after the last byte and its two bytes are swapped.
\<close>

definition crc_bit :: "u16 \<Rightarrow> bool \<Rightarrow> u16" where
  "crc_bit reg b = (if bit reg 0 \<noteq> b then drop_bit 1 reg XOR 0x8408 else drop_bit 1 reg)"

definition crc_byte :: "u16 \<Rightarrow> u8 \<Rightarrow> u16" where
  "crc_byte reg byte = foldl crc_bit reg (map (bit byte) [0..<8])"

definition swap_bytes16 :: "u16 \<Rightarrow> u16" where
  "swap_bytes16 w = push_bit 8 w OR drop_bit 8 w"

definition crc_spec :: "u8 list \<Rightarrow> u16" where
  "crc_spec bytes = swap_bytes16 (NOT (foldl crc_byte 0xFFFF bytes))"

section \<open>Header setters, packet building and the decoder\<close>

datatype codec_error =
  ERR_SHORT | ERR_SEAL | ERR_LENGTH | ERR_CRC | ERR_STRING | ERR_ORDER | ERR_VALUE | ERR_PARAM

text \<open>
  Modelled from the spec: the header setters \<open>set_cmd\<close>, \<open>set_seq\<close> and \<open>set_status\<close>.
  tcpacket.h has no setter functions, only the struct fields \<open>tc_cmd\<close> (offset 6),
  \<open>tc_seq\<close> (offset 7) and \<open>tc_sts\<close> (offset 8) that its callers assign.
\<close>

definition set_cmd :: "tcpacket \<Rightarrow> u8 \<Rightarrow> bool \<Rightarrow> codec_error + tcpacket" where
  "set_cmd buf code is_response =
     (if code > 0x7F then Inl ERR_PARAM
      else Inr (buf[6 := code OR (if is_response then 0x80 else 0)]))"

definition set_seq :: "tcpacket \<Rightarrow> u8 \<Rightarrow> tcpacket" where
  "set_seq buf seq = buf[7 := seq]"

definition set_status :: "tcpacket \<Rightarrow> u8 \<Rightarrow> tcpacket" where
  "set_status buf sts = buf[8 := sts]"

text \<open>
  A caller that appends the floats, then the ints, then the optional string (passed to
  \<open>tcpkt_addstring\<close> with its terminating zero byte), after \<open>tcpkt_init\<close> and the
  header setters.
\<close>

fun add_floats :: "tcpacket \<Rightarrow> float32 list \<Rightarrow> tcpacket option" where
  "add_floats pkt [] = Some pkt"
| "add_floats pkt (v # vs) =
     (case tcpkt_addfloat pkt v of None \<Rightarrow> None | Some pkt' \<Rightarrow> add_floats pkt' vs)"

fun add_ints :: "tcpacket \<Rightarrow> int32 list \<Rightarrow> tcpacket option" where
  "add_ints pkt [] = Some pkt"
| "add_ints pkt (v # vs) =
     (case tcpkt_addint pkt v of None \<Rightarrow> None | Some pkt' \<Rightarrow> add_ints pkt' vs)"

definition add_string_opt :: "tcpacket \<Rightarrow> u8 list option \<Rightarrow> tcpacket option" where
  "add_string_opt pkt S =
     (case S of None \<Rightarrow> Some pkt | Some s \<Rightarrow> tcpkt_addstring pkt (s @ [0]))"

definition build_packet ::
  "tcpacket \<Rightarrow> u8 \<Rightarrow> bool \<Rightarrow> u8 \<Rightarrow> u8 \<Rightarrow> float32 list \<Rightarrow> int32 list \<Rightarrow> u8 list option
     \<Rightarrow> tcpacket option" where
  "build_packet buf code is_response seq sts F I S =
     (case set_cmd (tcpkt_init buf) code is_response of
        Inl e \<Rightarrow> None
      | Inr p0 \<Rightarrow>
          (case add_floats (set_status (set_seq p0 seq) sts) F of
             None \<Rightarrow> None
           | Some p1 \<Rightarrow>
               (case add_ints p1 I of
                  None \<Rightarrow> None
                | Some p2 \<Rightarrow> add_string_opt p2 S)))"

text \<open>
  Modelled from the spec: the decoder \<open>parse\<close> of section 4.4. tcpacket.h has no
  validation function; the model runs the five gates in the order the specification
  lists them, with \<open>crc16\<close> of the source as the CRC engine. The view borrows the input
  bytes.
\<close>

datatype view = View (view_bytes: "u8 list")

definition expected_total :: "u8 list \<Rightarrow> nat" where
  "expected_total bytes =
     12 + 4 * unat (bytes ! 9) + 4 * unat (bytes ! 10) + unat (bytes ! 11)"

definition gate_short :: "u8 list \<Rightarrow> codec_error + unit" where
  "gate_short bytes = (if 12 \<le> length bytes then Inr () else Inl ERR_SHORT)"

definition gate_seal :: "u8 list \<Rightarrow> codec_error + unit" where
  "gate_seal bytes =
     (if take 4 bytes = [TC_SEAL0, TC_SEAL1, TC_SEAL2, TC_SEAL3] then Inr () else Inl ERR_SEAL)"

definition gate_length :: "u8 list \<Rightarrow> codec_error + unit" where
  "gate_length bytes =
     (if expected_total bytes \<le> 128 \<and> expected_total bytes \<le> length bytes
      then Inr () else Inl ERR_LENGTH)"

definition gate_string :: "u8 list \<Rightarrow> codec_error + unit" where
  "gate_string bytes =
     (if 0 < unat (bytes ! 11) then
        (if bytes ! (expected_total bytes - 1) = 0 then Inr () else Inl ERR_STRING)
      else Inr ())"

definition gate_crc :: "u8 list \<Rightarrow> codec_error + unit" where
  "gate_crc bytes =
     (let stored_crc = le_word16 [bytes ! 4, bytes ! 5];
          zeroed = (take (expected_total bytes) bytes)[4 := 0, 5 := 0];
          running_crc = crc16 zeroed (of_nat (expected_total bytes))
      in if running_crc = Some stored_crc then Inr () else Inl ERR_CRC)"

definition and_then :: "codec_error + unit \<Rightarrow> (codec_error + 'a) \<Rightarrow> codec_error + 'a" where
  "and_then g k = (case g of Inl e \<Rightarrow> Inl e | Inr u \<Rightarrow> k)"

definition parse :: "u8 list \<Rightarrow> codec_error + view" where
  "parse bytes =
     and_then (gate_short bytes)
       (and_then (gate_seal bytes)
          (and_then (gate_length bytes)
             (and_then (gate_string bytes)
                (and_then (gate_crc bytes) (Inr (View bytes))))))"

section \<open>Packet states used as concrete inputs\<close>

text \<open>The packet after \<open>tcpkt_init\<close> and one \<open>tcpkt_addint\<close> of 7.\<close>

definition pkt_one_int :: tcpacket where
  "pkt_one_int = (tcpkt_init [])[10 := 1, 12 := 7]"

text \<open>The packet after \<open>tcpkt_init\<close> and 29 calls \<open>tcpkt_addint\<close> of 0: 128 bytes in use.\<close>

definition pkt_full_ints :: tcpacket where
  "pkt_full_ints = (tcpkt_init [])[10 := 29]"

text \<open>The packet after \<open>tcpkt_init\<close> and 29 calls \<open>tcpkt_addfloat\<close> of 0: 128 bytes in use.\<close>

definition pkt_full_floats :: tcpacket where
  "pkt_full_floats = (tcpkt_init [])[9 := 29]"

text \<open>\<open>pkt_one_int\<close> after a following \<open>tcpkt_addfloat\<close> of 1.0 (\<open>0x3F800000\<close>).\<close>

definition pkt_one_int_float :: tcpacket where
  "pkt_one_int_float = (tcpkt_init [])[9 := 1, 10 := 1, 12 := 0, 14 := 0x80, 15 := 0x3F]"

text \<open>\<open>pkt_full_ints\<close> after a following \<open>tcpkt_addfloat\<close> of 1.0.\<close>

definition pkt_full_ints_float :: tcpacket where
  "pkt_full_ints_float = (tcpkt_init [])[9 := 1, 10 := 29, 14 := 0x80, 15 := 0x3F]"

text \<open>The packet after \<open>tcpkt_init\<close> and \<open>tcpkt_addstring\<close> of \<open>"a"\<close>.\<close>

definition pkt_str :: tcpacket where
  "pkt_str = (tcpkt_init [])[11 := 2, 12 := 0x61]"

text \<open>\<open>pkt_str\<close> after a following \<open>tcpkt_addint\<close> of 7.\<close>

definition pkt_str_int :: tcpacket where
  "pkt_str_int = (tcpkt_init [])[10 := 1, 11 := 2, 12 := 7]"

text \<open>\<open>pkt_str\<close> after a second \<open>tcpkt_addstring\<close>, of \<open>"bcd"\<close>.\<close>

definition pkt_str_second :: tcpacket where
  "pkt_str_second = (tcpkt_init [])[11 := 4, 12 := 0x62, 13 := 0x63, 14 := 0x64]"

text \<open>A PING request with sequence number 7 and its CRC \<open>0xE68E\<close> stamped little-endian.\<close>

definition ping_bytes :: "u8 list" where
  "ping_bytes = [0xA1, 0x55, 0xBB, 0xA2, 0x8E, 0xE6, 0, 7, 0, 0, 0, 0]"

text \<open>The packet after \<open>tcpkt_init\<close> and one \<open>tcpkt_addfloat\<close> of 1.0.\<close>

definition pkt_one_float :: tcpacket where
  "pkt_one_float = (tcpkt_init [])[9 := 1, 14 := 0x80, 15 := 0x3F]"

section \<open>The CRC engine\<close>

lemma and_one_word: "(w :: 'a::len word) AND 1 = of_bool (bit w 0)"
  by (simp add: and_one_eq mod_2_eq_odd bit_0)

lemma lsb_test:
  "((c :: u32) AND 0x0001) XOR (d AND 0x0001) \<noteq> 0 \<longleftrightarrow> bit c 0 \<noteq> bit d 0"
  by (simp add: and_one_word)

lemma ucast_drop1: "drop_bit 1 (ucast (r :: u16) :: u32) = ucast (drop_bit 1 r)"
  by (simp add: ucast_drop_bit_eq)

lemma ucast_poly: "(ucast (r :: u16) :: u32) XOR CRC16_POLY = ucast (r XOR 0x8408)"
proof -
  have "CRC16_POLY = ucast (0x8408 :: u16)"
    by (simp add: CRC16_POLY_def)
  then show ?thesis
    by (simp add: unsigned_xor_eq)
qed

lemma step32:
  "(if (ucast (r::u16) AND (0x0001::u32)) XOR (d AND 0x0001) \<noteq> 0
    then drop_bit 1 (ucast r) XOR CRC16_POLY
    else drop_bit 1 (ucast r)) = ucast (crc_bit r (bit d 0))"
proof -
  have "bit (ucast r :: u32) 0 = bit r 0"
    by (simp add: bit_simps)
  then show ?thesis
    unfolding lsb_test crc_bit_def ucast_drop1 ucast_poly by simp
qed

lemma map_bit_Suc:
  "map (bit (d :: u32)) [0..<Suc n] = bit d 0 # map (bit (drop_bit 1 d)) [0..<n]"
proof -
  have "[0..<Suc n] = 0 # map Suc [0..<n]"
    by (simp add: upt_conv_Cons map_Suc_upt del: upt_Suc)
  then show ?thesis
    by (simp add: bit_simps comp_def del: upt_Suc)
qed

lemma crc16_bits_unroll:
  "unat i \<le> 8 \<Longrightarrow>
   crc16_bits i d (ucast r) = ucast (foldl crc_bit r (map (bit d) [0..<8 - unat i]))"
proof (induction i d "ucast r :: u32" arbitrary: r rule: crc16_bits.induct)
  case (1 i data)
  show ?case
  proof (cases "i < 8")
    case True
    then have lt: "unat i < 8"
      by (simp add: word_less_nat_alt)
    then have suc: "unat (i + 1) = Suc (unat i)"
      by (simp add: unat_word_ariths)
    have idx: "8 - unat i = Suc (8 - unat (i + 1))"
      using lt suc by simp
    have "crc16_bits i data (ucast r) =
          crc16_bits (i + 1) (drop_bit 1 data) (ucast (crc_bit r (bit data 0)))"
      using True by (subst crc16_bits.simps) (simp only: step32 if_True)
    also have "\<dots> = ucast (foldl crc_bit (crc_bit r (bit data 0))
                        (map (bit (drop_bit 1 data)) [0..<8 - unat (i + 1)]))"
      using True lt suc by (intro "1.hyps") (simp_all add: step32)
    finally show ?thesis
      unfolding idx map_bit_Suc by simp
  next
    case False
    with "1.prems" have "unat i = 8"
      by (simp add: word_less_nat_alt)
    with False show ?thesis
      by (subst crc16_bits.simps) simp
  qed
qed

lemma crc16_bits_byte:
  "crc16_bits 0 (0xff AND ucast (b :: u8)) (ucast r) = ucast (crc_byte r b)"
proof -
  have "map (bit (0xff AND ucast b :: u32)) [0..<8] = map (bit b) [0..<8]"
  proof (rule map_cong [OF refl])
    fix n assume "n \<in> set [0..<8]"
    then have n: "n < 8" by simp
    have "(0xff :: u32) = mask 8"
      by (simp add: mask_eq_exp_minus_1)
    then have "0xff AND ucast b = (take_bit 8 (ucast b) :: u32)"
      by (simp add: take_bit_eq_mask and.commute)
    with n show "bit (0xff AND ucast b :: u32) n = bit b n"
      by (simp add: bit_simps)
  qed
  then have eq: "foldl crc_bit r (map (bit (0xff AND ucast b :: u32)) [0..<8]) = crc_byte r b"
    unfolding crc_byte_def by (rule arg_cong)
  have "crc16_bits 0 (0xff AND ucast b) (ucast r) =
        ucast (foldl crc_bit r (map (bit (0xff AND ucast b :: u32)) [0..<8 - unat (0 :: u8)]))"
    by (rule crc16_bits_unroll) simp
  then show ?thesis
    unfolding eq [symmetric] by simp
qed

lemma crc16_loop_fold:
  "len \<noteq> 0 \<Longrightarrow> unat len \<le> length data_p \<Longrightarrow>
   crc16_loop data_p len (ucast r) = Some (ucast (foldl crc_byte r (take (unat len) data_p)))"
proof (induction data_p arbitrary: len r)
  case Nil
  then show ?case by (simp add: unat_eq_0)
next
  case (Cons b data_p)
  from Cons.prems(1) have pos: "0 < unat len"
    by (simp add: unat_gt_0)
  then have dec: "unat (len - 1) = unat len - 1"
    by (simp add: unat_minus_one Cons.prems(1))
  show ?case
  proof (cases "len - 1 = 0")
    case True
    then have "unat len = 1"
      using dec pos by simp
    with True show ?thesis
      by (simp add: crc16_bits_byte)
  next
    case False
    have "unat (len - 1) \<le> length data_p"
      using Cons.prems(2) dec by simp
    from Cons.IH [OF False this, of "crc_byte r b"] False pos dec show ?thesis
      by (simp add: crc16_bits_byte take_Cons')
  qed
qed

lemma swap_final:
  "(ucast (push_bit 8 (NOT (ucast (r :: u16) :: u32))
       OR (drop_bit 8 (NOT (ucast r :: u32)) AND 0xff)) :: u16) = swap_bytes16 (NOT r)"
proof -
  have m: "(0xff :: u32) = mask 8"
    by (simp add: mask_eq_exp_minus_1)
  show ?thesis
    unfolding swap_bytes16_def m
    by (rule bit_word_eqI) (auto simp: bit_simps)
qed

lemma crc16_take:
  assumes "len \<noteq> 0" and "unat len \<le> length data_p"
  shows "crc16 data_p len = Some (crc_spec (take (unat len) data_p))"
proof -
  have "(0xffff :: u32) = ucast (0xFFFF :: u16)"
    by simp
  then have "crc16_loop data_p len 0xffff =
             Some (ucast (foldl crc_byte 0xFFFF (take (unat len) data_p)))"
    using crc16_loop_fold [of len data_p "0xFFFF"] assms by simp
  with assms(1) show ?thesis
    by (simp add: crc16_def crc_spec_def swap_final)
qed

text \<open>
  C1. For a call \<open>crc16(data_p, length)\<close> with \<open>length > 0\<close> and the \<open>length\<close> bytes at
  \<open>data_p\<close>, the result is the value the specification describes: register \<open>0xFFFF\<close>,
  the bits of each byte LSB first with polynomial \<open>0x8408\<close>, complement, byte swap.
\<close>

theorem crc16_refines_spec:
  assumes "len \<noteq> 0" and "unat len = length bytes"
  shows "crc16 bytes len = Some (crc_spec bytes)"
  using crc16_take [of len bytes] assms by simp

theorem crc16_refines_spec_witness:
  "(3 :: u16) \<noteq> 0 \<and> unat (3 :: u16) = length [0x31, 0x32, 0x33 :: u8] \<and>
   crc16 [0x31, 0x32, 0x33] 3 = Some 0xB49C"
proof -
  have h: "(3 :: u16) \<noteq> 0" "unat (3 :: u16) = length [0x31, 0x32, 0x33 :: u8]"
    by simp_all
  have "crc_spec [0x31, 0x32, 0x33] = 0xB49C"
    by code_simp
  with h crc16_refines_spec [OF h] show ?thesis
    by simp
qed

text \<open>
  C9. With \<open>length = 0\<close> the function returns \<open>~0xFFFF\<close> truncated to 16 bits, which is
  \<open>0x0000\<close>, whatever \<open>data_p\<close> points to; the byte loop, which reads a byte before it
  tests the count, is not entered (on an empty region it would read out of bounds).
\<close>

theorem crc16_empty:
  "crc16 data_p 0 = Some 0x0000 \<and> crc16_loop [] 0 0xffff = None"
  by (simp add: crc16_def)

section \<open>Loads, stores and header fields\<close>

lemma le_word32_bytes: "le_word32 (le_bytes32 w) = w"
proof (rule bit_word_eqI)
  fix n :: nat
  assume "n < LENGTH(32)"
  then have n: "n < 32" by simp
  have r: "8 \<le> n \<Longrightarrow> 8 + (n - 8) = n" "16 \<le> n \<Longrightarrow> 16 + (n - 16) = n"
    "24 \<le> n \<Longrightarrow> 24 + (n - 24) = n"
    by simp_all
  consider "n < 8" | "8 \<le> n" "n < 16" | "16 \<le> n" "n < 24" | "24 \<le> n"
    by linarith
  then show "bit (le_word32 (le_bytes32 w)) n = bit w n"
    using n by cases (auto simp: le_word32_def le_bytes32_def bit_simps r)
qed

lemma length_le_bytes32: "length (le_bytes32 w) = 4"
  by (simp add: le_bytes32_def)

lemma mem_write_length: "mem_write pkt off bs = Some pkt' \<Longrightarrow> length pkt' = length pkt"
  by (auto simp: mem_write_def split: if_splits)

lemma mem_write_nth:
  "mem_write pkt off bs = Some pkt' \<Longrightarrow> i < length pkt \<Longrightarrow>
   pkt' ! i = (if off \<le> i \<and> i < off + length bs then bs ! (i - off) else pkt ! i)"
  by (auto simp: mem_write_def nth_append split: if_splits)

lemma mem_write_Some:
  "off + length bs \<le> length pkt \<Longrightarrow> \<exists>pkt'. mem_write pkt off bs = Some pkt'"
  by (simp add: mem_write_def)

lemma mem_read_nth:
  "off + n \<le> length pkt \<Longrightarrow> mem_read pkt off n = Some (map (\<lambda>i. pkt ! (off + i)) [0..<n])"
  by (auto simp: mem_read_def intro!: nth_equalityI)

lemma load32_nth:
  "off + 4 \<le> length pkt \<Longrightarrow>
   load32 pkt off = Some (le_word32 [pkt ! off, pkt ! (off + 1), pkt ! (off + 2), pkt ! (off + 3)])"
  by (simp add: load32_def mem_read_nth le_word32_def upt_rec numeral_eq_Suc)


section \<open>Initialisation and size\<close>

lemma length_tcpkt_init: "length (tcpkt_init pkt) = 128"
  by (simp add: tcpkt_init_def set_tc_seal_def TC_MAXLEN_def le_bytes32_def)

lemma tcpkt_init_bytes:
  "tcpkt_init pkt = [0xA1, 0x55, 0xBB, 0xA2] @ replicate 124 0"
  by (simp add: tcpkt_init_def set_tc_seal_def TC_MAXLEN_def le_bytes32_def TC_SEAL_def)

text \<open>
  C7. After \<open>tcpkt_init\<close>, whatever the buffer held, the first four bytes are
  \<open>0xA1, 0x55, 0xBB, 0xA2\<close>, the seal field reads \<open>0xA2BB55A1\<close> as a little-endian word,
  and the crc field, the sts byte and the three counts are 0.
\<close>

theorem tcpkt_init_header:
  "take 4 (tcpkt_init pkt) = [0xA1, 0x55, 0xBB, 0xA2] \<and>
   tc_seal (tcpkt_init pkt) = 0xA2BB55A1 \<and>
   tc_crc (tcpkt_init pkt) = 0 \<and>
   tc_sts (tcpkt_init pkt) = 0 \<and>
   tc_fparams (tcpkt_init pkt) = 0 \<and>
   tc_iparams (tcpkt_init pkt) = 0 \<and>
   tc_sparams (tcpkt_init pkt) = 0"
  by (simp add: tcpkt_init_bytes tc_seal_def tc_crc_def tc_sts_def tc_fparams_def
      tc_iparams_def tc_sparams_def le_word32_def le_word16_def nth_append)

lemma tcpkt_size_unat:
  "unat (tcpkt_size pkt) =
     12 + 4 * unat (tc_fparams pkt) + 4 * unat (tc_iparams pkt) + unat (tc_sparams pkt)"
proof -
  have b: "unat (tc_fparams pkt) < 256" "unat (tc_iparams pkt) < 256"
    "unat (tc_sparams pkt) < 256"
    using unsigned_less [of "tc_fparams pkt", where 'a = nat]
      unsigned_less [of "tc_iparams pkt", where 'a = nat]
      unsigned_less [of "tc_sparams pkt", where 'a = nat] by simp_all
  have u: "unat (ucast (x :: u8) :: u32) = unat x" for x
  proof -
    have "unat x < 2 ^ 8"
      using unsigned_less [of x, where 'a = nat] by simp
    then have "unat x < 2 ^ 32"
      by simp
    then show ?thesis
      by (simp add: unsigned_ucast_eq take_bit_nat_eq_self)
  qed
  show ?thesis
    using b by (simp add: tcpkt_size_def TC_HDRSIZE_def unat_word_ariths u)
qed

text \<open>
  C8. \<open>tcpkt_size\<close> returns exactly \<open>12 + 4 * nfloat + 4 * nint + nstr\<close>: the sum is
  computed in \<open>size_t\<close> and cannot wrap, since each count is one byte.
\<close>

theorem tcpkt_size_formula:
  "unat (tcpkt_size pkt) =
     12 + 4 * unat (tc_fparams pkt) + 4 * unat (tc_iparams pkt) + unat (tc_sparams pkt)"
  by (rule tcpkt_size_unat)

section \<open>Effect of one append\<close>

lemma store32_Some: "off + 4 \<le> length pkt \<Longrightarrow> \<exists>pkt'. store32 pkt off v = Some pkt'"
  by (simp add: store32_def mem_write_def length_le_bytes32)

lemma store32_None: "\<not> off + 4 \<le> length pkt \<Longrightarrow> store32 pkt off v = None"
  by (simp add: store32_def mem_write_def length_le_bytes32)

lemma store32_length: "store32 pkt off v = Some pkt' \<Longrightarrow> length pkt' = length pkt"
  unfolding store32_def by (rule mem_write_length)

lemma store32_nth:
  "store32 pkt off v = Some pkt' \<Longrightarrow> i < length pkt \<Longrightarrow>
   pkt' ! i = (if off \<le> i \<and> i < off + 4 then le_bytes32 v ! (i - off) else pkt ! i)"
  unfolding store32_def using mem_write_nth [of pkt off "le_bytes32 v" pkt' i]
  by (simp add: length_le_bytes32)

lemma store32_bounds: "store32 pkt off v = Some pkt' \<Longrightarrow> off + 4 \<le> length pkt"
  by (simp add: store32_def mem_write_def length_le_bytes32 split: if_splits)

lemma load32_store32:
  assumes "store32 pkt off v = Some pkt'"
  shows "load32 pkt' off = Some v"
proof -
  have b: "off + 4 \<le> length pkt"
    using assms by (rule store32_bounds)
  have l: "length pkt' = length pkt"
    using assms by (rule store32_length)
  have "[pkt' ! off, pkt' ! (off + 1), pkt' ! (off + 2), pkt' ! (off + 3)] = le_bytes32 v"
    using b by (simp add: store32_nth [OF assms] le_bytes32_def)
  then show ?thesis
    using b l by (simp add: load32_nth le_word32_bytes)
qed

lemma load32_cong:
  assumes "length a = length b" and "off + 4 \<le> length a"
    and "\<And>i. off \<le> i \<Longrightarrow> i < off + 4 \<Longrightarrow> a ! i = b ! i"
  shows "load32 a off = load32 b off"
  using assms by (simp add: load32_nth)

lemma u8_Suc: "unat (c :: u8) < 255 \<Longrightarrow> unat (c + 1) = Suc (unat c)"
  by (simp add: unat_word_ariths)

lemma tcpkt_addfloat_effect:
  assumes len: "length pkt = 128"
    and fit: "12 + 4 * unat (tc_fparams pkt) + 4 \<le> 128"
  shows "\<exists>pkt'. tcpkt_addfloat pkt v = Some pkt' \<and> length pkt' = 128 \<and>
           pkt' ! 9 = pkt ! 9 + 1 \<and>
           (\<forall>i < 128. i \<noteq> 9 \<longrightarrow>
              \<not> (12 + 4 * unat (tc_fparams pkt) \<le> i \<and> i < 12 + 4 * unat (tc_fparams pkt) + 4) \<longrightarrow>
              pkt' ! i = pkt ! i) \<and>
           load32 pkt' (12 + 4 * unat (tc_fparams pkt)) = Some v"
proof -
  let ?off = "12 + 4 * unat (tc_fparams pkt)"
  obtain p where p: "store32 pkt ?off v = Some p"
    using store32_Some [of ?off pkt v] len fit by auto
  have lp: "length p = 128"
    using store32_length [OF p] len by simp
  have p9: "p ! 9 = pkt ! 9"
    using store32_nth [OF p, of 9] len by simp
  let ?q = "p[9 := p ! 9 + 1]"
  have r: "tcpkt_addfloat pkt v = Some ?q"
    using p by (simp add: tcpkt_addfloat_def TC_HDRSIZE_def set_tc_fparams_def tc_fparams_def
        mult.commute)
  have frame: "\<forall>i < 128. i \<noteq> 9 \<longrightarrow> \<not> (?off \<le> i \<and> i < ?off + 4) \<longrightarrow> ?q ! i = pkt ! i"
    using store32_nth [OF p] len by simp
  have "load32 ?q ?off = load32 p ?off"
    using lp fit by (intro load32_cong) simp_all
  then have ld: "load32 ?q ?off = Some v"
    using load32_store32 [OF p] by simp
  show ?thesis
    using r lp p9 frame ld by simp
qed

lemma tcpkt_addint_effect:
  assumes len: "length pkt = 128"
    and fit: "12 + 4 * unat (tc_fparams pkt) + 4 * unat (tc_iparams pkt) + 4 \<le> 128"
  shows "\<exists>pkt'. tcpkt_addint pkt v = Some pkt' \<and> length pkt' = 128 \<and>
           pkt' ! 10 = pkt ! 10 + 1 \<and>
           (\<forall>i < 128. i \<noteq> 10 \<longrightarrow>
              \<not> (12 + 4 * unat (tc_fparams pkt) + 4 * unat (tc_iparams pkt) \<le> i \<and>
                 i < 12 + 4 * unat (tc_fparams pkt) + 4 * unat (tc_iparams pkt) + 4) \<longrightarrow>
              pkt' ! i = pkt ! i) \<and>
           load32 pkt' (12 + 4 * unat (tc_fparams pkt) + 4 * unat (tc_iparams pkt)) = Some v"
proof -
  let ?off = "12 + 4 * unat (tc_fparams pkt) + 4 * unat (tc_iparams pkt)"
  obtain p where p: "store32 pkt ?off v = Some p"
    using store32_Some [of ?off pkt v] len fit by auto
  have lp: "length p = 128"
    using store32_length [OF p] len by simp
  have p10: "p ! 10 = pkt ! 10"
    using store32_nth [OF p, of 10] len by simp
  let ?q = "p[10 := p ! 10 + 1]"
  have r: "tcpkt_addint pkt v = Some ?q"
    using p by (simp add: tcpkt_addint_def TC_HDRSIZE_def set_tc_iparams_def tc_fparams_def
        tc_iparams_def mult.commute)
  have frame: "\<forall>i < 128. i \<noteq> 10 \<longrightarrow> \<not> (?off \<le> i \<and> i < ?off + 4) \<longrightarrow> ?q ! i = pkt ! i"
    using store32_nth [OF p] len by simp
  have "load32 ?q ?off = load32 p ?off"
    using lp fit by (intro load32_cong) simp_all
  then have ld: "load32 ?q ?off = Some v"
    using load32_store32 [OF p] by simp
  show ?thesis
    using r lp p10 frame ld by simp
qed

section \<open>Appending lists of parameters\<close>

lemma add_floats_effect:
  assumes "length pkt = 128" and "12 + 4 * (unat (pkt ! 9) + length F) \<le> 128"
  shows "\<exists>pkt'. add_floats pkt F = Some pkt' \<and> length pkt' = 128 \<and>
           unat (pkt' ! 9) = unat (pkt ! 9) + length F \<and>
           (\<forall>i < 128. i \<noteq> 9 \<longrightarrow>
              i < 12 + 4 * unat (pkt ! 9) \<or> 12 + 4 * (unat (pkt ! 9) + length F) \<le> i \<longrightarrow>
              pkt' ! i = pkt ! i) \<and>
           (\<forall>k < length F. load32 pkt' (12 + 4 * (unat (pkt ! 9) + k)) = Some (F ! k))"
  using assms
proof (induction F arbitrary: pkt)
  case Nil
  then show ?case by simp
next
  case (Cons v vs)
  let ?n = "unat (pkt ! 9)"
  from Cons.prems have fit: "12 + 4 * unat (tc_fparams pkt) + 4 \<le> 128"
    by (simp add: tc_fparams_def)
  from tcpkt_addfloat_effect [OF Cons.prems(1) fit, of v]
  obtain p1 where p1: "tcpkt_addfloat pkt v = Some p1" "length p1 = 128"
    "p1 ! 9 = pkt ! 9 + 1"
    and fr1: "\<And>i. i < 128 \<Longrightarrow> i \<noteq> 9 \<Longrightarrow> \<not> (12 + 4 * ?n \<le> i \<and> i < 12 + 4 * ?n + 4) \<Longrightarrow>
                p1 ! i = pkt ! i"
    and ld1: "load32 p1 (12 + 4 * ?n) = Some v"
    by (auto simp: tc_fparams_def)
  have n1: "unat (p1 ! 9) = Suc ?n"
    using Cons.prems(2) p1(3) by (simp add: u8_Suc)
  have "12 + 4 * (unat (p1 ! 9) + length vs) \<le> 128"
    using Cons.prems(2) n1 by simp
  from Cons.IH [OF p1(2) this]
  obtain p' where p': "add_floats p1 vs = Some p'" "length p' = 128"
    "unat (p' ! 9) = Suc ?n + length vs"
    and fr': "\<And>i. i < 128 \<Longrightarrow> i \<noteq> 9 \<Longrightarrow>
                i < 12 + 4 * Suc ?n \<or> 12 + 4 * (Suc ?n + length vs) \<le> i \<Longrightarrow> p' ! i = p1 ! i"
    and ld': "\<And>k. k < length vs \<Longrightarrow> load32 p' (12 + 4 * (Suc ?n + k)) = Some (vs ! k)"
    unfolding n1 by blast
  have frame: "p' ! i = pkt ! i"
    if "i < 128" "i \<noteq> 9" "i < 12 + 4 * ?n \<or> 12 + 4 * (?n + length (v # vs)) \<le> i" for i
  proof -
    have "p' ! i = p1 ! i"
      using that by (intro fr') auto
    also have "p1 ! i = pkt ! i"
      using that by (intro fr1) auto
    finally show ?thesis .
  qed
  have loads: "load32 p' (12 + 4 * (?n + k)) = Some ((v # vs) ! k)" if "k < length (v # vs)" for k
  proof (cases k)
    case 0
    have "load32 p' (12 + 4 * ?n) = load32 p1 (12 + 4 * ?n)"
      using p'(2) p1(2) fit by (intro load32_cong) (simp_all add: fr' tc_fparams_def)
    with ld1 0 show ?thesis by simp
  next
    case (Suc j)
    with that ld' [of j] show ?thesis by simp
  qed
  show ?case
    using p1(1) p' frame loads by simp
qed

lemma add_ints_effect:
  assumes "length pkt = 128"
    and "12 + 4 * unat (pkt ! 9) + 4 * (unat (pkt ! 10) + length I) \<le> 128"
  shows "\<exists>pkt'. add_ints pkt I = Some pkt' \<and> length pkt' = 128 \<and>
           unat (pkt' ! 10) = unat (pkt ! 10) + length I \<and>
           (\<forall>i < 128. i \<noteq> 10 \<longrightarrow>
              i < 12 + 4 * unat (pkt ! 9) + 4 * unat (pkt ! 10) \<or>
              12 + 4 * unat (pkt ! 9) + 4 * (unat (pkt ! 10) + length I) \<le> i \<longrightarrow>
              pkt' ! i = pkt ! i) \<and>
           (\<forall>k < length I.
              load32 pkt' (12 + 4 * unat (pkt ! 9) + 4 * (unat (pkt ! 10) + k)) = Some (I ! k))"
  using assms
proof (induction I arbitrary: pkt)
  case Nil
  then show ?case by simp
next
  case (Cons v vs)
  let ?f = "unat (pkt ! 9)"
  let ?n = "unat (pkt ! 10)"
  from Cons.prems
  have fit: "12 + 4 * unat (tc_fparams pkt) + 4 * unat (tc_iparams pkt) + 4 \<le> 128"
    by (simp add: tc_fparams_def tc_iparams_def)
  from tcpkt_addint_effect [OF Cons.prems(1) fit, of v]
  obtain p1 where p1: "tcpkt_addint pkt v = Some p1" "length p1 = 128"
    "p1 ! 10 = pkt ! 10 + 1"
    and fr1: "\<And>i. i < 128 \<Longrightarrow> i \<noteq> 10 \<Longrightarrow>
                \<not> (12 + 4 * ?f + 4 * ?n \<le> i \<and> i < 12 + 4 * ?f + 4 * ?n + 4) \<Longrightarrow>
                p1 ! i = pkt ! i"
    and ld1: "load32 p1 (12 + 4 * ?f + 4 * ?n) = Some v"
    by (auto simp: tc_fparams_def tc_iparams_def)
  have n1: "unat (p1 ! 10) = Suc ?n"
    using Cons.prems(2) p1(3) by (simp add: u8_Suc)
  have f1: "p1 ! 9 = pkt ! 9"
    by (rule fr1) simp_all
  have "12 + 4 * unat (p1 ! 9) + 4 * (unat (p1 ! 10) + length vs) \<le> 128"
    using Cons.prems(2) n1 f1 by simp
  from Cons.IH [OF p1(2) this]
  obtain p' where p': "add_ints p1 vs = Some p'" "length p' = 128"
    "unat (p' ! 10) = Suc ?n + length vs"
    and fr': "\<And>i. i < 128 \<Longrightarrow> i \<noteq> 10 \<Longrightarrow>
                i < 12 + 4 * ?f + 4 * Suc ?n \<or> 12 + 4 * ?f + 4 * (Suc ?n + length vs) \<le> i \<Longrightarrow>
                p' ! i = p1 ! i"
    and ld': "\<And>k. k < length vs \<Longrightarrow>
                load32 p' (12 + 4 * ?f + 4 * (Suc ?n + k)) = Some (vs ! k)"
    unfolding n1 f1 by blast
  have frame: "p' ! i = pkt ! i"
    if "i < 128" "i \<noteq> 10"
      "i < 12 + 4 * ?f + 4 * ?n \<or> 12 + 4 * ?f + 4 * (?n + length (v # vs)) \<le> i" for i
  proof -
    have "p' ! i = p1 ! i"
      using that by (intro fr') auto
    also have "p1 ! i = pkt ! i"
      using that by (intro fr1) auto
    finally show ?thesis .
  qed
  have loads: "load32 p' (12 + 4 * ?f + 4 * (?n + k)) = Some ((v # vs) ! k)"
    if "k < length (v # vs)" for k
  proof (cases k)
    case 0
    have "load32 p' (12 + 4 * ?f + 4 * ?n) = load32 p1 (12 + 4 * ?f + 4 * ?n)"
      using p'(2) p1(2) fit
      by (intro load32_cong) (simp_all add: fr' tc_fparams_def tc_iparams_def)
    with ld1 0 show ?thesis by simp
  next
    case (Suc j)
    with that ld' [of j] show ?thesis by simp
  qed
  show ?case
    using p1(1) p' frame loads by simp
qed

lemma takeWhile_nonzero:
  "(0 :: u8) \<notin> set s \<Longrightarrow> takeWhile (\<lambda>c. c \<noteq> 0) (s @ 0 # r) = s"
  by (induction s) auto

lemma strlen_terminated: "0 \<notin> set s \<Longrightarrow> strlen (s @ [0]) = Some (length s)"
  by (simp add: strlen_def takeWhile_nonzero)

lemma tcpkt_addstring_effect:
  assumes len: "length pkt = 128" and nul: "0 \<notin> set s"
    and fit: "12 + 4 * unat (pkt ! 9) + 4 * unat (pkt ! 10) + (length s + 1) \<le> 128"
  shows "\<exists>pkt'. tcpkt_addstring pkt (s @ [0]) = Some pkt' \<and> length pkt' = 128 \<and>
           pkt' ! 11 = of_nat (length s + 1) \<and>
           (\<forall>i < 128. i \<noteq> 11 \<longrightarrow>
              \<not> (12 + 4 * unat (pkt ! 9) + 4 * unat (pkt ! 10) \<le> i \<and>
                 i < 12 + 4 * unat (pkt ! 9) + 4 * unat (pkt ! 10) + (length s + 1)) \<longrightarrow>
              pkt' ! i = pkt ! i) \<and>
           c_string_at pkt' (12 + 4 * unat (pkt ! 9) + 4 * unat (pkt ! 10)) = Some s"
proof -
  let ?off = "12 + 4 * unat (pkt ! 9) + 4 * unat (pkt ! 10)"
  let ?p = "take ?off pkt @ (s @ [0]) @ drop (?off + length (s @ [0])) pkt"
  have w: "mem_write pkt ?off (s @ [0]) = Some ?p"
    using len fit by (simp add: mem_write_def)
  have lp: "length ?p = 128"
    using mem_write_length [OF w] len by simp
  let ?q = "?p[11 := of_nat (length s + 1)]"
  have r: "tcpkt_addstring pkt (s @ [0]) = Some ?q"
    using w nul
    by (simp add: tcpkt_addstring_def strlen_terminated TC_HDRSIZE_def tc_fparams_def
        tc_iparams_def set_tc_sparams_def mult.commute)
  have q11: "?q ! 11 = of_nat (length s + 1)"
    using lp by simp
  have frame: "\<forall>i < 128. i \<noteq> 11 \<longrightarrow> \<not> (?off \<le> i \<and> i < ?off + (length s + 1)) \<longrightarrow>
                 ?q ! i = pkt ! i"
    using mem_write_nth [OF w] len by simp
  have "drop ?off ?q = drop ?off ?p"
    by (simp add: drop_update_cancel)
  also have "\<dots> = (s @ [0]) @ drop (?off + length (s @ [0])) pkt"
    using len fit by simp
  finally have d: "drop ?off ?q = s @ 0 # drop (?off + length (s @ [0])) pkt"
    by simp
  have cs: "c_string_at ?q ?off = Some s"
    unfolding c_string_at_def d using nul by (simp add: takeWhile_nonzero)
  show ?thesis
    using r lp q11 frame cs by (simp del: length_append)
qed

lemma unat_ucast_u8: "unat (ucast (x :: u8) :: u32) = unat x"
proof -
  have "unat x < 2 ^ 8"
    using unsigned_less [of x, where 'a = nat] by simp
  then have "unat x < 2 ^ 32"
    by simp
  then show ?thesis
    by (simp add: unsigned_ucast_eq take_bit_nat_eq_self)
qed

lemma float_slot_offset:
  "unat (k :: u32) < 2 ^ 29 \<Longrightarrow> unat (12 + k * 4) = 12 + 4 * unat k"
  by (simp add: unat_word_ariths)

lemma int_slot_offset:
  assumes "unat (k :: u32) < 2 ^ 29"
  shows "unat (12 + ucast (f :: u8) * 4 + k * 4 :: u32) = 12 + 4 * unat f + 4 * unat k"
proof -
  have "unat f < 2 ^ 8"
    using unsigned_less [of f, where 'a = nat] by simp
  with assms show ?thesis
    by (simp add: unat_word_ariths unat_ucast_u8)
qed

lemma tcpkt_getfloat_slot:
  "unat idx < 2 ^ 29 \<Longrightarrow> tcpkt_getfloat pkt idx = load32 pkt (12 + 4 * unat idx)"
  by (simp add: tcpkt_getfloat_def TC_HDRSIZE_def float_slot_offset)

lemma tcpkt_getint_slot:
  "unat idx < 2 ^ 29 \<Longrightarrow>
   tcpkt_getint pkt idx = load32 pkt (12 + 4 * unat (tc_fparams pkt) + 4 * unat idx)"
  by (simp add: tcpkt_getint_def TC_HDRSIZE_def int_slot_offset)

section \<open>Round trip\<close>

lemma header_stage:
  assumes "code \<le> 0x7F"
  shows "\<exists>p0. set_cmd (tcpkt_init buf) code is_response = Inr p0 \<and>
           length (set_status (set_seq p0 seq) sts) = 128 \<and>
           set_status (set_seq p0 seq) sts ! 6 = code OR (if is_response then 0x80 else 0) \<and>
           set_status (set_seq p0 seq) sts ! 7 = seq \<and>
           set_status (set_seq p0 seq) sts ! 8 = sts \<and>
           set_status (set_seq p0 seq) sts ! 9 = 0 \<and>
           set_status (set_seq p0 seq) sts ! 10 = 0 \<and>
           set_status (set_seq p0 seq) sts ! 11 = 0"
proof -
  have "\<not> 0x7F < code"
    using assms by (simp add: not_less)
  then show ?thesis
    by (simp add: set_cmd_def set_seq_def set_status_def length_tcpkt_init)
      (simp add: tcpkt_init_bytes nth_append)
qed

lemma add_floats_ints_effect:
  assumes len: "length pa = 128" and z: "pa ! 9 = 0" "pa ! 10 = 0"
    and bound: "4 * length F + 4 * length I \<le> 116"
  shows "\<exists>p1 p2. add_floats pa F = Some p1 \<and> add_ints p1 I = Some p2 \<and> length p2 = 128 \<and>
           unat (p2 ! 9) = length F \<and> unat (p2 ! 10) = length I \<and>
           p2 ! 6 = pa ! 6 \<and> p2 ! 7 = pa ! 7 \<and> p2 ! 8 = pa ! 8 \<and> p2 ! 11 = pa ! 11 \<and>
           (\<forall>k < length F. load32 p2 (12 + 4 * k) = Some (F ! k)) \<and>
           (\<forall>k < length I. load32 p2 (12 + 4 * length F + 4 * k) = Some (I ! k))"
proof -
  have "12 + 4 * (unat (pa ! 9) + length F) \<le> 128"
    using bound z by simp
  from add_floats_effect [OF len this]
  obtain p1 where p1: "add_floats pa F = Some p1" "length p1 = 128" "unat (p1 ! 9) = length F"
    and fr1: "\<And>i. i < 128 \<Longrightarrow> i \<noteq> 9 \<Longrightarrow> i < 12 \<or> 12 + 4 * length F \<le> i \<Longrightarrow> p1 ! i = pa ! i"
    and ld1: "\<And>k. k < length F \<Longrightarrow> load32 p1 (12 + 4 * k) = Some (F ! k)"
    unfolding z by auto
  have p1_10: "p1 ! 10 = 0"
    using fr1 [of 10] z by simp
  have "12 + 4 * unat (p1 ! 9) + 4 * (unat (p1 ! 10) + length I) \<le> 128"
    using bound p1(3) p1_10 by simp
  from add_ints_effect [OF p1(2) this]
  obtain p2 where p2: "add_ints p1 I = Some p2" "length p2 = 128" "unat (p2 ! 10) = length I"
    and fr2: "\<And>i. i < 128 \<Longrightarrow> i \<noteq> 10 \<Longrightarrow>
                i < 12 + 4 * length F \<or> 12 + 4 * length F + 4 * length I \<le> i \<Longrightarrow>
                p2 ! i = p1 ! i"
    and ld2: "\<And>k. k < length I \<Longrightarrow> load32 p2 (12 + 4 * length F + 4 * k) = Some (I ! k)"
    unfolding p1(3) p1_10 by auto
  have hdr: "p2 ! 6 = pa ! 6" "p2 ! 7 = pa ! 7" "p2 ! 8 = pa ! 8" "p2 ! 11 = pa ! 11"
    "p2 ! 9 = p1 ! 9"
    using fr2 [of 6] fr1 [of 6] fr2 [of 7] fr1 [of 7] fr2 [of 8] fr1 [of 8]
      fr2 [of 11] fr1 [of 11] fr2 [of 9] by simp_all
  have fl: "load32 p2 (12 + 4 * k) = Some (F ! k)" if "k < length F" for k
  proof -
    have "load32 p2 (12 + 4 * k) = load32 p1 (12 + 4 * k)"
      using p2(2) p1(2) that bound by (intro load32_cong) (simp_all add: fr2)
    with ld1 [OF that] show ?thesis by simp
  qed
  show ?thesis
    using p1(1) p2 hdr p1(3) fl ld2 by simp
qed

lemma tcpkt_getfloat_load:
  "i < 2 ^ 29 \<Longrightarrow> tcpkt_getfloat pkt (of_nat i) = load32 pkt (12 + 4 * i)"
proof -
  assume i: "i < 2 ^ 29"
  then have "unat (of_nat i :: u32) = i"
    by (simp add: unat_of_nat)
  with i tcpkt_getfloat_slot [of "of_nat i" pkt] show ?thesis
    by simp
qed

lemma tcpkt_getint_load:
  "i < 2 ^ 29 \<Longrightarrow>
   tcpkt_getint pkt (of_nat i) = load32 pkt (12 + 4 * unat (pkt ! 9) + 4 * i)"
proof -
  assume i: "i < 2 ^ 29"
  then have "unat (of_nat i :: u32) = i"
    by (simp add: unat_of_nat)
  with i tcpkt_getint_slot [of "of_nat i" pkt] show ?thesis
    by (simp add: tc_fparams_def)
qed

text \<open>
  C2. For floats \<open>F\<close>, ints \<open>I\<close> and an optional zero-free string \<open>S\<close> with
  \<open>4|F| + 4|I| + (|S| + 1 or 0) \<le> 116\<close>, the packet built by \<open>tcpkt_init\<close>, the header
  setters, \<open>tcpkt_addfloat\<close> for each float, \<open>tcpkt_addint\<close> for each int and
  \<open>tcpkt_addstring\<close> is built without leaving the buffer; \<open>tcpkt_getfloat\<close> and
  \<open>tcpkt_getint\<close> return every appended value bit for bit, the pointer returned by
  \<open>tcpkt_getstring\<close> reads as \<open>S\<close> (without a string \<open>nstr\<close> stays 0), and the cmd, seq
  and sts bytes are the ones set.
  The command code is one \<open>set_cmd\<close> accepts (at most \<open>0x7F\<close>).
\<close>

theorem build_packet_roundtrip:
  assumes bound:
      "4 * length F + 4 * length I + (case S of None \<Rightarrow> 0 | Some s \<Rightarrow> length s + 1) \<le> 116"
    and nul: "case S of None \<Rightarrow> True | Some s \<Rightarrow> 0 \<notin> set s"
    and code: "code \<le> 0x7F"
  shows "\<exists>pkt. build_packet buf code is_response seq sts F I S = Some pkt \<and>
           tc_cmd pkt = code OR (if is_response then 0x80 else 0) \<and>
           tc_seq pkt = seq \<and> tc_sts pkt = sts \<and>
           unat (tc_fparams pkt) = length F \<and> unat (tc_iparams pkt) = length I \<and>
           tc_sparams pkt = (case S of None \<Rightarrow> 0 | Some s \<Rightarrow> of_nat (length s + 1)) \<and>
           (\<forall>i < length F. tcpkt_getfloat pkt (of_nat i) = Some (F ! i)) \<and>
           (\<forall>j < length I. tcpkt_getint pkt (of_nat j) = Some (I ! j)) \<and>
           (\<forall>s. S = Some s \<longrightarrow> c_string_at pkt (tcpkt_getstring pkt) = Some s)"
proof -
  from header_stage [OF code, of buf is_response seq sts]
  obtain p0 where p0: "set_cmd (tcpkt_init buf) code is_response = Inr p0"
    and pa: "length (set_status (set_seq p0 seq) sts) = 128"
      "set_status (set_seq p0 seq) sts ! 6 = code OR (if is_response then 0x80 else 0)"
      "set_status (set_seq p0 seq) sts ! 7 = seq"
      "set_status (set_seq p0 seq) sts ! 8 = sts"
      "set_status (set_seq p0 seq) sts ! 9 = 0"
      "set_status (set_seq p0 seq) sts ! 10 = 0"
      "set_status (set_seq p0 seq) sts ! 11 = 0"
    by blast
  let ?pa = "set_status (set_seq p0 seq) sts"
  have fi: "4 * length F + 4 * length I \<le> 116"
    using bound by simp
  from add_floats_ints_effect [OF pa(1) pa(5) pa(6) fi]
  obtain p1 p2 where p1: "add_floats ?pa F = Some p1" and p2: "add_ints p1 I = Some p2"
    and l2: "length p2 = 128"
    and c2: "unat (p2 ! 9) = length F" "unat (p2 ! 10) = length I"
    and h2: "p2 ! 6 = ?pa ! 6" "p2 ! 7 = ?pa ! 7" "p2 ! 8 = ?pa ! 8" "p2 ! 11 = ?pa ! 11"
    and f2: "\<And>k. k < length F \<Longrightarrow> load32 p2 (12 + 4 * k) = Some (F ! k)"
    and i2: "\<And>k. k < length I \<Longrightarrow> load32 p2 (12 + 4 * length F + 4 * k) = Some (I ! k)"
    by blast
  have small: "length F < 2 ^ 29" "length I < 2 ^ 29"
    using fi by simp_all
  show ?thesis
  proof (cases S)
    case None
    have b: "build_packet buf code is_response seq sts F I S = Some p2"
      using p0 p1 p2 None by (simp add: build_packet_def add_string_opt_def)
    have "tcpkt_getfloat p2 (of_nat i) = Some (F ! i)" if "i < length F" for i
      using that small f2 by (simp add: tcpkt_getfloat_load)
    moreover have "tcpkt_getint p2 (of_nat j) = Some (I ! j)" if "j < length I" for j
      using that small i2 c2 by (simp add: tcpkt_getint_load)
    ultimately show ?thesis
      using b None h2 pa c2
      by (simp add: tc_cmd_def tc_seq_def tc_sts_def tc_fparams_def tc_iparams_def
          tc_sparams_def)
  next
    case (Some s)
    let ?off = "12 + 4 * length F + 4 * length I"
    have nz: "0 \<notin> set s"
      using nul Some by simp
    have "12 + 4 * unat (p2 ! 9) + 4 * unat (p2 ! 10) + (length s + 1) \<le> 128"
      using bound Some c2 by simp
    from tcpkt_addstring_effect [OF l2 nz this]
    obtain p3 where p3: "tcpkt_addstring p2 (s @ [0]) = Some p3" and l3: "length p3 = 128"
      and n3: "p3 ! 11 = of_nat (length s + 1)"
      and fr3: "\<And>i. i < 128 \<Longrightarrow> i \<noteq> 11 \<Longrightarrow> \<not> (?off \<le> i \<and> i < ?off + (length s + 1)) \<Longrightarrow>
                  p3 ! i = p2 ! i"
      and cs: "c_string_at p3 ?off = Some s"
      unfolding c2 by blast
    have b: "build_packet buf code is_response seq sts F I S = Some p3"
      using p0 p1 p2 p3 Some by (simp add: build_packet_def add_string_opt_def)
    have h3: "p3 ! 6 = p2 ! 6" "p3 ! 7 = p2 ! 7" "p3 ! 8 = p2 ! 8" "p3 ! 9 = p2 ! 9"
      "p3 ! 10 = p2 ! 10"
      using fr3 [of 6] fr3 [of 7] fr3 [of 8] fr3 [of 9] fr3 [of 10] by simp_all
    have fl: "tcpkt_getfloat p3 (of_nat i) = Some (F ! i)" if "i < length F" for i
    proof -
      have "load32 p3 (12 + 4 * i) = load32 p2 (12 + 4 * i)"
        using l3 l2 that fi by (intro load32_cong) (simp_all add: fr3)
      with that small f2 show ?thesis
        by (simp add: tcpkt_getfloat_load)
    qed
    have il: "tcpkt_getint p3 (of_nat j) = Some (I ! j)" if "j < length I" for j
    proof -
      have "load32 p3 (12 + 4 * length F + 4 * j) = load32 p2 (12 + 4 * length F + 4 * j)"
        using l3 l2 that fi by (intro load32_cong) (simp_all add: fr3)
      with that small i2 c2 h3 show ?thesis
        by (simp add: tcpkt_getint_load)
    qed
    have gs: "tcpkt_getstring p3 = ?off"
      using h3 c2 by (simp add: tcpkt_getstring_def TC_HDRSIZE_def tc_fparams_def tc_iparams_def)
    show ?thesis
      using b Some h3 h2 pa c2 fl il cs gs n3
      by (simp add: tc_cmd_def tc_seq_def tc_sts_def tc_fparams_def tc_iparams_def
          tc_sparams_def)
  qed
qed

theorem build_packet_roundtrip_witness:
  "4 * length [0x42F60000 :: float32] + 4 * length [0xFFFFFFFB :: int32]
     + (case Some [0x76, 0x65, 0x6C :: u8] of None \<Rightarrow> 0 | Some s \<Rightarrow> length s + 1) \<le> 116 \<and>
   (case Some [0x76, 0x65, 0x6C :: u8] of None \<Rightarrow> True | Some s \<Rightarrow> 0 \<notin> set s) \<and>
   (13 :: u8) \<le> 0x7F \<and>
   (\<exists>pkt. build_packet [] 13 True 3 0 [0x42F60000] [0xFFFFFFFB] (Some [0x76, 0x65, 0x6C])
            = Some pkt \<and>
      tc_cmd pkt = 0x8D \<and> tc_seq pkt = 3 \<and> tc_sts pkt = 0 \<and> tc_sparams pkt = 4 \<and>
      tcpkt_getfloat pkt 0 = Some 0x42F60000 \<and>
      tcpkt_getint pkt 0 = Some 0xFFFFFFFB \<and>
      c_string_at pkt (tcpkt_getstring pkt) = Some [0x76, 0x65, 0x6C])"
proof -
  have h1: "4 * length [0x42F60000 :: float32] + 4 * length [0xFFFFFFFB :: int32]
     + (case Some [0x76, 0x65, 0x6C :: u8] of None \<Rightarrow> 0 | Some s \<Rightarrow> length s + 1) \<le> 116"
    by simp
  have h2: "case Some [0x76, 0x65, 0x6C :: u8] of None \<Rightarrow> True | Some s \<Rightarrow> 0 \<notin> set s"
    by simp
  have h3: "(13 :: u8) \<le> 0x7F"
    by simp
  from build_packet_roundtrip [OF h1 h2 h3, of "[]" True 3 0]
  obtain pkt where
    "build_packet [] 13 True 3 0 [0x42F60000] [0xFFFFFFFB] (Some [0x76, 0x65, 0x6C]) = Some pkt"
    "tc_cmd pkt = 13 OR 0x80" "tc_seq pkt = 3" "tc_sts pkt = 0"
    "tc_sparams pkt = of_nat (length [0x76, 0x65, 0x6C :: u8] + 1)"
    "\<forall>i < length [0x42F60000 :: float32].
        tcpkt_getfloat pkt (of_nat i) = Some ([0x42F60000] ! i)"
    "\<forall>j < length [0xFFFFFFFB :: int32]. tcpkt_getint pkt (of_nat j) = Some ([0xFFFFFFFB] ! j)"
    "c_string_at pkt (tcpkt_getstring pkt) = Some [0x76, 0x65, 0x6C]"
    by auto
  then show ?thesis
    using h3 by auto
qed

section \<open>Frame of an append\<close>

lemma header_fields_eq:
  assumes "length a = 128" and "length b = 128" and "\<And>i. i < 9 \<Longrightarrow> a ! i = b ! i"
  shows "tc_seal a = tc_seal b" and "tc_crc a = tc_crc b" and "tc_cmd a = tc_cmd b"
    and "tc_seq a = tc_seq b" and "tc_sts a = tc_sts b"
  using assms
  by (simp_all add: tc_seal_def tc_crc_def tc_cmd_def tc_seq_def tc_sts_def le_word32_def
      le_word16_def)

text \<open>
  C10, as amended. When the resulting size is at most 128, \<open>tcpkt_addfloat\<close> changes only
  the four bytes of its slot at \<open>12 + 4 * nfloat\<close>, which then hold the value, and the
  count \<open>nfloat\<close>, which grows by one: seal, crc, cmd, seq, sts, \<open>nint\<close>, \<open>nstr\<close>, every
  other byte and every float appended before are unchanged. \<open>tcpkt_addint\<close> likewise
  changes only its slot at \<open>12 + 4 * nfloat + 4 * nint\<close> and \<open>nint\<close>, and leaves the
  floats and ints appended before unchanged. Ints or a string that lie in the slot are
  overwritten.
\<close>

theorem append_frame:
  assumes len: "length pkt = 128"
  shows
    "(12 + 4 * (unat (tc_fparams pkt) + 1) + 4 * unat (tc_iparams pkt) + unat (tc_sparams pkt)
        \<le> 128 \<longrightarrow>
      (\<exists>pkt'. tcpkt_addfloat pkt v = Some pkt' \<and> length pkt' = 128 \<and>
         unat (tc_fparams pkt') = unat (tc_fparams pkt) + 1 \<and>
         load32 pkt' (12 + 4 * unat (tc_fparams pkt)) = Some v \<and>
         (\<forall>i < 128. i \<noteq> 9 \<longrightarrow>
            \<not> (12 + 4 * unat (tc_fparams pkt) \<le> i \<and> i < 12 + 4 * unat (tc_fparams pkt) + 4) \<longrightarrow>
            pkt' ! i = pkt ! i) \<and>
         tc_seal pkt' = tc_seal pkt \<and> tc_crc pkt' = tc_crc pkt \<and> tc_cmd pkt' = tc_cmd pkt \<and>
         tc_seq pkt' = tc_seq pkt \<and> tc_sts pkt' = tc_sts pkt \<and>
         tc_iparams pkt' = tc_iparams pkt \<and> tc_sparams pkt' = tc_sparams pkt \<and>
         (\<forall>k. unat k < unat (tc_fparams pkt) \<longrightarrow>
            tcpkt_getfloat pkt' k = tcpkt_getfloat pkt k))) \<and>
     (12 + 4 * unat (tc_fparams pkt) + 4 * (unat (tc_iparams pkt) + 1) + unat (tc_sparams pkt)
        \<le> 128 \<longrightarrow>
      (\<exists>pkt'. tcpkt_addint pkt w = Some pkt' \<and> length pkt' = 128 \<and>
         unat (tc_iparams pkt') = unat (tc_iparams pkt) + 1 \<and>
         load32 pkt' (12 + 4 * unat (tc_fparams pkt) + 4 * unat (tc_iparams pkt)) = Some w \<and>
         (\<forall>i < 128. i \<noteq> 10 \<longrightarrow>
            \<not> (12 + 4 * unat (tc_fparams pkt) + 4 * unat (tc_iparams pkt) \<le> i \<and>
               i < 12 + 4 * unat (tc_fparams pkt) + 4 * unat (tc_iparams pkt) + 4) \<longrightarrow>
            pkt' ! i = pkt ! i) \<and>
         tc_seal pkt' = tc_seal pkt \<and> tc_crc pkt' = tc_crc pkt \<and> tc_cmd pkt' = tc_cmd pkt \<and>
         tc_seq pkt' = tc_seq pkt \<and> tc_sts pkt' = tc_sts pkt \<and>
         tc_fparams pkt' = tc_fparams pkt \<and> tc_sparams pkt' = tc_sparams pkt \<and>
         (\<forall>k. unat k < unat (tc_fparams pkt) \<longrightarrow>
            tcpkt_getfloat pkt' k = tcpkt_getfloat pkt k) \<and>
         (\<forall>k. unat k < unat (tc_iparams pkt) \<longrightarrow>
            tcpkt_getint pkt' k = tcpkt_getint pkt k)))"
proof (intro conjI impI)
  let ?f = "unat (tc_fparams pkt)"
  assume size: "12 + 4 * (?f + 1) + 4 * unat (tc_iparams pkt) + unat (tc_sparams pkt) \<le> 128"
  then have fit: "12 + 4 * ?f + 4 \<le> 128"
    by simp
  from tcpkt_addfloat_effect [OF len fit, of v]
  obtain p where p: "tcpkt_addfloat pkt v = Some p" "length p = 128" "p ! 9 = pkt ! 9 + 1"
    and fr: "\<And>i. i < 128 \<Longrightarrow> i \<noteq> 9 \<Longrightarrow> \<not> (12 + 4 * ?f \<le> i \<and> i < 12 + 4 * ?f + 4) \<Longrightarrow>
               p ! i = pkt ! i"
    and ld: "load32 p (12 + 4 * ?f) = Some v"
    by blast
  have cnt: "unat (tc_fparams p) = ?f + 1"
    using p(3) fit by (simp add: tc_fparams_def u8_Suc)
  have hdr: "tc_seal p = tc_seal pkt" "tc_crc p = tc_crc pkt" "tc_cmd p = tc_cmd pkt"
    "tc_seq p = tc_seq pkt" "tc_sts p = tc_sts pkt"
    using header_fields_eq [OF p(2) len] fr by simp_all
  have oth: "tc_iparams p = tc_iparams pkt" "tc_sparams p = tc_sparams pkt"
    using fr [of 10] fr [of 11] by (simp_all add: tc_iparams_def tc_sparams_def)
  have old: "tcpkt_getfloat p k = tcpkt_getfloat pkt k" if "unat k < ?f" for k
  proof -
    have "load32 p (12 + 4 * unat k) = load32 pkt (12 + 4 * unat k)"
      using p(2) len that fit by (intro load32_cong) (simp_all add: fr)
    with that fit show ?thesis
      by (simp add: tcpkt_getfloat_slot)
  qed
  show "\<exists>pkt'. tcpkt_addfloat pkt v = Some pkt' \<and> length pkt' = 128 \<and>
         unat (tc_fparams pkt') = ?f + 1 \<and>
         load32 pkt' (12 + 4 * ?f) = Some v \<and>
         (\<forall>i < 128. i \<noteq> 9 \<longrightarrow> \<not> (12 + 4 * ?f \<le> i \<and> i < 12 + 4 * ?f + 4) \<longrightarrow>
            pkt' ! i = pkt ! i) \<and>
         tc_seal pkt' = tc_seal pkt \<and> tc_crc pkt' = tc_crc pkt \<and> tc_cmd pkt' = tc_cmd pkt \<and>
         tc_seq pkt' = tc_seq pkt \<and> tc_sts pkt' = tc_sts pkt \<and>
         tc_iparams pkt' = tc_iparams pkt \<and> tc_sparams pkt' = tc_sparams pkt \<and>
         (\<forall>k. unat k < ?f \<longrightarrow> tcpkt_getfloat pkt' k = tcpkt_getfloat pkt k)"
    using p(1,2) cnt ld fr hdr oth old by simp
next
  let ?f = "unat (tc_fparams pkt)"
  let ?n = "unat (tc_iparams pkt)"
  assume size: "12 + 4 * ?f + 4 * (?n + 1) + unat (tc_sparams pkt) \<le> 128"
  then have fit: "12 + 4 * ?f + 4 * ?n + 4 \<le> 128"
    by simp
  from tcpkt_addint_effect [OF len fit, of w]
  obtain p where p: "tcpkt_addint pkt w = Some p" "length p = 128" "p ! 10 = pkt ! 10 + 1"
    and fr: "\<And>i. i < 128 \<Longrightarrow> i \<noteq> 10 \<Longrightarrow>
               \<not> (12 + 4 * ?f + 4 * ?n \<le> i \<and> i < 12 + 4 * ?f + 4 * ?n + 4) \<Longrightarrow>
               p ! i = pkt ! i"
    and ld: "load32 p (12 + 4 * ?f + 4 * ?n) = Some w"
    by blast
  have cnt: "unat (tc_iparams p) = ?n + 1"
    using p(3) fit by (simp add: tc_iparams_def u8_Suc)
  have hdr: "tc_seal p = tc_seal pkt" "tc_crc p = tc_crc pkt" "tc_cmd p = tc_cmd pkt"
    "tc_seq p = tc_seq pkt" "tc_sts p = tc_sts pkt"
    using header_fields_eq [OF p(2) len] fr by simp_all
  have oth: "tc_fparams p = tc_fparams pkt" "tc_sparams p = tc_sparams pkt"
    using fr [of 9] fr [of 11] by (simp_all add: tc_fparams_def tc_sparams_def)
  have oldf: "tcpkt_getfloat p k = tcpkt_getfloat pkt k" if "unat k < ?f" for k
  proof -
    have "load32 p (12 + 4 * unat k) = load32 pkt (12 + 4 * unat k)"
      using p(2) len that fit by (intro load32_cong) (simp_all add: fr)
    with that fit show ?thesis
      by (simp add: tcpkt_getfloat_slot)
  qed
  have oldi: "tcpkt_getint p k = tcpkt_getint pkt k" if "unat k < ?n" for k
  proof -
    have "load32 p (12 + 4 * ?f + 4 * unat k) = load32 pkt (12 + 4 * ?f + 4 * unat k)"
      using p(2) len that fit by (intro load32_cong) (simp_all add: fr)
    with that fit oth show ?thesis
      by (simp add: tcpkt_getint_slot)
  qed
  show "\<exists>pkt'. tcpkt_addint pkt w = Some pkt' \<and> length pkt' = 128 \<and>
         unat (tc_iparams pkt') = ?n + 1 \<and>
         load32 pkt' (12 + 4 * ?f + 4 * ?n) = Some w \<and>
         (\<forall>i < 128. i \<noteq> 10 \<longrightarrow>
            \<not> (12 + 4 * ?f + 4 * ?n \<le> i \<and> i < 12 + 4 * ?f + 4 * ?n + 4) \<longrightarrow>
            pkt' ! i = pkt ! i) \<and>
         tc_seal pkt' = tc_seal pkt \<and> tc_crc pkt' = tc_crc pkt \<and> tc_cmd pkt' = tc_cmd pkt \<and>
         tc_seq pkt' = tc_seq pkt \<and> tc_sts pkt' = tc_sts pkt \<and>
         tc_fparams pkt' = tc_fparams pkt \<and> tc_sparams pkt' = tc_sparams pkt \<and>
         (\<forall>k. unat k < ?f \<longrightarrow> tcpkt_getfloat pkt' k = tcpkt_getfloat pkt k) \<and>
         (\<forall>k. unat k < ?n \<longrightarrow> tcpkt_getint pkt' k = tcpkt_getint pkt k)"
    using p(1,2) cnt ld fr hdr oth oldf oldi by simp
qed

lemma pkt_one_float_facts:
  "length pkt_one_float = 128" "tc_fparams pkt_one_float = 1" "tc_iparams pkt_one_float = 0"
  "tc_sparams pkt_one_float = 0" "tcpkt_addfloat (tcpkt_init []) 0x3F800000 = Some pkt_one_float"
  by code_simp+

theorem append_frame_witness:
  "length pkt_one_float = 128 \<and>
   12 + 4 * (unat (tc_fparams pkt_one_float) + 1) + 4 * unat (tc_iparams pkt_one_float)
     + unat (tc_sparams pkt_one_float) \<le> 128 \<and>
   12 + 4 * unat (tc_fparams pkt_one_float) + 4 * (unat (tc_iparams pkt_one_float) + 1)
     + unat (tc_sparams pkt_one_float) \<le> 128 \<and>
   (\<exists>pkt'. tcpkt_addfloat pkt_one_float 0x40000000 = Some pkt' \<and>
      unat (tc_fparams pkt') = 2 \<and> load32 pkt' 16 = Some 0x40000000 \<and>
      tc_seal pkt' = tc_seal pkt_one_float \<and>
      tcpkt_getfloat pkt' 0 = tcpkt_getfloat pkt_one_float 0) \<and>
   (\<exists>pkt'. tcpkt_addint pkt_one_float 7 = Some pkt' \<and>
      unat (tc_iparams pkt') = 1 \<and> load32 pkt' 16 = Some 7 \<and>
      tc_seal pkt' = tc_seal pkt_one_float \<and>
      tcpkt_getfloat pkt' 0 = tcpkt_getfloat pkt_one_float 0)"
proof -
  note f = pkt_one_float_facts
  have s1: "12 + 4 * (unat (tc_fparams pkt_one_float) + 1) + 4 * unat (tc_iparams pkt_one_float)
     + unat (tc_sparams pkt_one_float) \<le> 128"
    and s2: "12 + 4 * unat (tc_fparams pkt_one_float) + 4 * (unat (tc_iparams pkt_one_float) + 1)
     + unat (tc_sparams pkt_one_float) \<le> 128"
    by (simp_all add: f)
  have k: "unat (0 :: u32) < unat (tc_fparams pkt_one_float)"
    by (simp add: f)
  from append_frame [OF f(1), of "0x40000000" 7] s1 s2
  have a: "\<exists>pkt'. tcpkt_addfloat pkt_one_float 0x40000000 = Some pkt' \<and>
      unat (tc_fparams pkt') = unat (tc_fparams pkt_one_float) + 1 \<and>
      load32 pkt' (12 + 4 * unat (tc_fparams pkt_one_float)) = Some 0x40000000 \<and>
      tc_seal pkt' = tc_seal pkt_one_float \<and>
      (\<forall>k. unat k < unat (tc_fparams pkt_one_float) \<longrightarrow>
         tcpkt_getfloat pkt' k = tcpkt_getfloat pkt_one_float k)"
    and b: "\<exists>pkt'. tcpkt_addint pkt_one_float 7 = Some pkt' \<and>
      unat (tc_iparams pkt') = unat (tc_iparams pkt_one_float) + 1 \<and>
      load32 pkt' (12 + 4 * unat (tc_fparams pkt_one_float)
                     + 4 * unat (tc_iparams pkt_one_float)) = Some 7 \<and>
      tc_seal pkt' = tc_seal pkt_one_float \<and>
      (\<forall>k. unat k < unat (tc_fparams pkt_one_float) \<longrightarrow>
         tcpkt_getfloat pkt' k = tcpkt_getfloat pkt_one_float k)"
    by blast+
  from a k have a': "\<exists>pkt'. tcpkt_addfloat pkt_one_float 0x40000000 = Some pkt' \<and>
      unat (tc_fparams pkt') = 2 \<and> load32 pkt' 16 = Some 0x40000000 \<and>
      tc_seal pkt' = tc_seal pkt_one_float \<and>
      tcpkt_getfloat pkt' 0 = tcpkt_getfloat pkt_one_float 0"
    by (auto simp: f)
  from b k have b': "\<exists>pkt'. tcpkt_addint pkt_one_float 7 = Some pkt' \<and>
      unat (tc_iparams pkt') = 1 \<and> load32 pkt' 16 = Some 7 \<and>
      tc_seal pkt' = tc_seal pkt_one_float \<and>
      tcpkt_getfloat pkt' 0 = tcpkt_getfloat pkt_one_float 0"
    by (auto simp: f)
  show ?thesis
    using f(1) s1 s2 a' b' by blast
qed

lemma pkt_one_int_facts:
  "length pkt_one_int = 128" "tc_fparams pkt_one_int = 0" "tc_iparams pkt_one_int = 1"
  "tc_sparams pkt_one_int = 0" "tcpkt_addint (tcpkt_init []) 7 = Some pkt_one_int"
  "tcpkt_addfloat pkt_one_int 0x3F800000 = Some pkt_one_int_float"
  by code_simp+

text \<open>
  The claim C10 as stated fails: after \<open>tcpkt_init\<close> and \<open>tcpkt_addint\<close> of 7 the
  resulting size of a \<open>tcpkt_addfloat\<close> is 20, yet the call overwrites the bytes of the int
  appended before (offsets 12 to 15), and \<open>tcpkt_getint\<close> at index 0 no longer returns 7.
\<close>

theorem append_frame_counterexample:
  "tcpkt_addint (tcpkt_init []) 7 = Some pkt_one_int \<and>
   length pkt_one_int = 128 \<and>
   12 + 4 * (unat (tc_fparams pkt_one_int) + 1) + 4 * unat (tc_iparams pkt_one_int)
     + unat (tc_sparams pkt_one_int) = 20 \<and>
   tcpkt_getint pkt_one_int 0 = Some 7 \<and>
   load32 pkt_one_int 12 = Some 7 \<and>
   tcpkt_addfloat pkt_one_int 0x3F800000 = Some pkt_one_int_float \<and>
   load32 pkt_one_int_float 12 = Some 0x3F800000 \<and>
   tcpkt_getint pkt_one_int_float 0 = Some 0"
  by (intro conjI) code_simp+

section \<open>No size check, no order check, no index check\<close>

lemma u8_succ_neq: "(c :: u8) + 1 \<noteq> c"
  by simp

lemma pkt_full_facts:
  "length pkt_full_ints = 128" "tc_fparams pkt_full_ints = 0" "tc_iparams pkt_full_ints = 29"
  "tc_sparams pkt_full_ints = 0"
  "length pkt_full_floats = 128" "tc_fparams pkt_full_floats = 29"
  by code_simp+

text \<open>
  The claim C3 as stated fails. After \<open>tcpkt_init\<close> and 29 ints the packet uses all 128
  bytes; \<open>tcpkt_addfloat\<close> then makes the size 132, is not refused, and changes the
  packet: it overwrites the first int and sets \<open>nfloat\<close> to 1. After 29 floats, the 30th
  \<open>tcpkt_addfloat\<close> stores at offsets 128 to 131, outside the packet.
\<close>

theorem addfloat_oversize_counterexample:
  "add_ints (tcpkt_init []) (replicate 29 0) = Some pkt_full_ints \<and>
   length pkt_full_ints = 128 \<and>
   12 + 4 * (unat (tc_fparams pkt_full_ints) + 1) + 4 * unat (tc_iparams pkt_full_ints)
     + unat (tc_sparams pkt_full_ints) = 132 \<and>
   tcpkt_addfloat pkt_full_ints 0x3F800000 = Some pkt_full_ints_float \<and>
   pkt_full_ints_float \<noteq> pkt_full_ints \<and>
   tc_fparams pkt_full_ints_float = 1 \<and>
   add_floats (tcpkt_init []) (replicate 29 0) = Some pkt_full_floats \<and>
   tcpkt_addfloat pkt_full_floats 0x3F800000 = None"
  by (intro conjI) code_simp+

text \<open>
  C3, as amended. \<open>tcpkt_addfloat\<close> has no size check and returns no status. Whenever its
  slot lies inside the 128-byte buffer (\<open>12 + 4 * (nfloat + 1) \<le> 128\<close>) it stores the value,
  increments \<open>nfloat\<close> and so changes the packet, whatever \<open>nint\<close> and \<open>nstr\<close> are, also when
  the resulting size exceeds 128. When the slot lies beyond the buffer, as for a 30th
  float, the store leaves the packet object.
\<close>

theorem addfloat_no_size_check:
  assumes len: "length pkt = 128"
  shows
    "(12 + 4 * (unat (tc_fparams pkt) + 1) \<le> 128 \<longrightarrow>
      (\<exists>pkt'. tcpkt_addfloat pkt v = Some pkt' \<and> pkt' \<noteq> pkt \<and>
         tc_fparams pkt' = tc_fparams pkt + 1 \<and>
         load32 pkt' (12 + 4 * unat (tc_fparams pkt)) = Some v \<and>
         unat (tcpkt_size pkt') = unat (tcpkt_size pkt) + 4)) \<and>
     (128 < 12 + 4 * (unat (tc_fparams pkt) + 1) \<longrightarrow> tcpkt_addfloat pkt v = None)"
proof (intro conjI impI)
  let ?f = "unat (tc_fparams pkt)"
  assume "12 + 4 * (?f + 1) \<le> 128"
  then have fit: "12 + 4 * ?f + 4 \<le> 128"
    by simp
  from tcpkt_addfloat_effect [OF len fit, of v]
  obtain p where p: "tcpkt_addfloat pkt v = Some p" "length p = 128" "p ! 9 = pkt ! 9 + 1"
    and fr: "\<And>i. i < 128 \<Longrightarrow> i \<noteq> 9 \<Longrightarrow> \<not> (12 + 4 * ?f \<le> i \<and> i < 12 + 4 * ?f + 4) \<Longrightarrow>
               p ! i = pkt ! i"
    and ld: "load32 p (12 + 4 * ?f) = Some v"
    by blast
  have "p ! 9 \<noteq> pkt ! 9"
    using p(3) by (simp add: u8_succ_neq)
  then have ne: "p \<noteq> pkt"
    by auto
  have cnt: "tc_fparams p = tc_fparams pkt + 1" "unat (tc_fparams p) = ?f + 1"
    using p(3) fit by (simp_all add: tc_fparams_def u8_Suc)
  have oth: "tc_iparams p = tc_iparams pkt" "tc_sparams p = tc_sparams pkt"
    using fr [of 10] fr [of 11] by (simp_all add: tc_iparams_def tc_sparams_def)
  have "unat (tcpkt_size p) = unat (tcpkt_size pkt) + 4"
    by (simp add: tcpkt_size_unat cnt(2) oth)
  with p(1) ne cnt(1) ld
  show "\<exists>pkt'. tcpkt_addfloat pkt v = Some pkt' \<and> pkt' \<noteq> pkt \<and>
         tc_fparams pkt' = tc_fparams pkt + 1 \<and>
         load32 pkt' (12 + 4 * ?f) = Some v \<and>
         unat (tcpkt_size pkt') = unat (tcpkt_size pkt) + 4"
    by simp
next
  assume "128 < 12 + 4 * (unat (tc_fparams pkt) + 1)"
  then have "\<not> 12 + unat (tc_fparams pkt) * 4 + 4 \<le> length pkt"
    using len by simp
  then show "tcpkt_addfloat pkt v = None"
    by (simp add: tcpkt_addfloat_def TC_HDRSIZE_def store32_None)
qed

theorem addfloat_no_size_check_witness:
  "length pkt_full_ints = 128 \<and>
   12 + 4 * (unat (tc_fparams pkt_full_ints) + 1) \<le> 128 \<and>
   unat (tcpkt_size pkt_full_ints) = 128 \<and>
   (\<exists>pkt'. tcpkt_addfloat pkt_full_ints 0x3F800000 = Some pkt' \<and> pkt' \<noteq> pkt_full_ints \<and>
      tc_fparams pkt' = 1 \<and> load32 pkt' 12 = Some 0x3F800000 \<and>
      unat (tcpkt_size pkt') = 132) \<and>
   length pkt_full_floats = 128 \<and>
   128 < 12 + 4 * (unat (tc_fparams pkt_full_floats) + 1) \<and>
   tcpkt_addfloat pkt_full_floats 0x3F800000 = None"
proof -
  note f = pkt_full_facts
  have sz: "unat (tcpkt_size pkt_full_ints) = 128"
    by (simp add: tcpkt_size_unat f)
  have h1: "12 + 4 * (unat (tc_fparams pkt_full_ints) + 1) \<le> 128"
    and h2: "128 < 12 + 4 * (unat (tc_fparams pkt_full_floats) + 1)"
    by (simp_all add: f)
  from addfloat_no_size_check [OF f(1), of "0x3F800000"] h1
  have a: "\<exists>pkt'. tcpkt_addfloat pkt_full_ints 0x3F800000 = Some pkt' \<and> pkt' \<noteq> pkt_full_ints \<and>
      tc_fparams pkt' = 1 \<and> load32 pkt' 12 = Some 0x3F800000 \<and>
      unat (tcpkt_size pkt') = 132"
    by (simp add: f sz)
  from addfloat_no_size_check [OF f(5), of "0x3F800000"] h2
  have b: "tcpkt_addfloat pkt_full_floats 0x3F800000 = None"
    by blast
  show ?thesis
    using f(1) f(5) sz h1 h2 a b by blast
qed

lemma pkt_str_facts:
  "length pkt_str = 128" "tc_fparams pkt_str = 0" "tc_iparams pkt_str = 0"
  "tc_sparams pkt_str = 2" "tcpkt_addstring (tcpkt_init []) [0x61, 0] = Some pkt_str"
  by code_simp+

text \<open>
  The claim C4 as stated fails. \<open>tcpkt_addfloat\<close> after \<open>tcpkt_addint\<close>, \<open>tcpkt_addint\<close>
  after \<open>tcpkt_addstring\<close> and a second \<open>tcpkt_addstring\<close> all return normally and change
  the buffer.
\<close>

theorem append_order_counterexample:
  "tcpkt_addint (tcpkt_init []) 7 = Some pkt_one_int \<and>
   tcpkt_addfloat pkt_one_int 0x3F800000 = Some pkt_one_int_float \<and>
   pkt_one_int_float \<noteq> pkt_one_int \<and>
   tcpkt_addstring (tcpkt_init []) [0x61, 0] = Some pkt_str \<and>
   tcpkt_addint pkt_str 7 = Some pkt_str_int \<and>
   pkt_str_int \<noteq> pkt_str \<and>
   tcpkt_addstring pkt_str [0x62, 0x63, 0x64, 0] = Some pkt_str_second \<and>
   pkt_str_second \<noteq> pkt_str"
  by (intro conjI) code_simp+

text \<open>
  C4, as amended. tcpacket.h enforces no append order and has no \<open>ERR_ORDER\<close>. In every
  128-byte packet state, \<open>tcpkt_addfloat\<close> with \<open>nint > 0\<close> or \<open>nstr > 0\<close> and
  \<open>tcpkt_addint\<close> with \<open>nstr > 0\<close> return normally when their slot lies inside the
  buffer: they store the value at the offset given by the current counts, increment their
  own count and leave the other two counts as they are, so the buffer changes. A second
  \<open>tcpkt_addstring\<close> that fits replaces the string at the same offset and sets \<open>nstr\<close> to
  its length plus one.
\<close>

theorem append_order_unchecked:
  assumes len: "length pkt = 128"
  shows
    "((tc_iparams pkt \<noteq> 0 \<or> tc_sparams pkt \<noteq> 0) \<and>
        12 + 4 * unat (tc_fparams pkt) + 4 \<le> 128 \<longrightarrow>
      (\<exists>pkt'. tcpkt_addfloat pkt v = Some pkt' \<and> pkt' \<noteq> pkt \<and>
         tc_fparams pkt' = tc_fparams pkt + 1 \<and>
         tc_iparams pkt' = tc_iparams pkt \<and> tc_sparams pkt' = tc_sparams pkt \<and>
         load32 pkt' (12 + 4 * unat (tc_fparams pkt)) = Some v)) \<and>
     (tc_sparams pkt \<noteq> 0 \<and>
        12 + 4 * unat (tc_fparams pkt) + 4 * unat (tc_iparams pkt) + 4 \<le> 128 \<longrightarrow>
      (\<exists>pkt'. tcpkt_addint pkt w = Some pkt' \<and> pkt' \<noteq> pkt \<and>
         tc_iparams pkt' = tc_iparams pkt + 1 \<and>
         tc_fparams pkt' = tc_fparams pkt \<and> tc_sparams pkt' = tc_sparams pkt \<and>
         load32 pkt' (12 + 4 * unat (tc_fparams pkt) + 4 * unat (tc_iparams pkt)) = Some w)) \<and>
     (tc_sparams pkt \<noteq> 0 \<and> 0 \<notin> set s \<and>
        12 + 4 * unat (tc_fparams pkt) + 4 * unat (tc_iparams pkt) + (length s + 1) \<le> 128 \<longrightarrow>
      (\<exists>pkt'. tcpkt_addstring pkt (s @ [0]) = Some pkt' \<and>
         tc_sparams pkt' = of_nat (length s + 1) \<and>
         tc_fparams pkt' = tc_fparams pkt \<and> tc_iparams pkt' = tc_iparams pkt \<and>
         c_string_at pkt' (tcpkt_getstring pkt') = Some s))"
proof (intro conjI impI)
  let ?f = "unat (tc_fparams pkt)"
  assume "(tc_iparams pkt \<noteq> 0 \<or> tc_sparams pkt \<noteq> 0) \<and> 12 + 4 * ?f + 4 \<le> 128"
  then have fit: "12 + 4 * ?f + 4 \<le> 128"
    by simp
  from tcpkt_addfloat_effect [OF len fit, of v]
  obtain p where p: "tcpkt_addfloat pkt v = Some p" "length p = 128" "p ! 9 = pkt ! 9 + 1"
    and fr: "\<And>i. i < 128 \<Longrightarrow> i \<noteq> 9 \<Longrightarrow> \<not> (12 + 4 * ?f \<le> i \<and> i < 12 + 4 * ?f + 4) \<Longrightarrow>
               p ! i = pkt ! i"
    and ld: "load32 p (12 + 4 * ?f) = Some v"
    by blast
  have "p ! 9 \<noteq> pkt ! 9"
    using p(3) by (simp add: u8_succ_neq)
  then have ne: "p \<noteq> pkt"
    by auto
  have "tc_fparams p = tc_fparams pkt + 1" "tc_iparams p = tc_iparams pkt"
    "tc_sparams p = tc_sparams pkt"
    using p(3) fr [of 10] fr [of 11]
    by (simp_all add: tc_fparams_def tc_iparams_def tc_sparams_def)
  with p(1) ne ld
  show "\<exists>pkt'. tcpkt_addfloat pkt v = Some pkt' \<and> pkt' \<noteq> pkt \<and>
         tc_fparams pkt' = tc_fparams pkt + 1 \<and>
         tc_iparams pkt' = tc_iparams pkt \<and> tc_sparams pkt' = tc_sparams pkt \<and>
         load32 pkt' (12 + 4 * ?f) = Some v"
    by simp
next
  let ?f = "unat (tc_fparams pkt)"
  let ?n = "unat (tc_iparams pkt)"
  assume "tc_sparams pkt \<noteq> 0 \<and> 12 + 4 * ?f + 4 * ?n + 4 \<le> 128"
  then have fit: "12 + 4 * ?f + 4 * ?n + 4 \<le> 128"
    by simp
  from tcpkt_addint_effect [OF len fit, of w]
  obtain p where p: "tcpkt_addint pkt w = Some p" "length p = 128" "p ! 10 = pkt ! 10 + 1"
    and fr: "\<And>i. i < 128 \<Longrightarrow> i \<noteq> 10 \<Longrightarrow>
               \<not> (12 + 4 * ?f + 4 * ?n \<le> i \<and> i < 12 + 4 * ?f + 4 * ?n + 4) \<Longrightarrow>
               p ! i = pkt ! i"
    and ld: "load32 p (12 + 4 * ?f + 4 * ?n) = Some w"
    by blast
  have "p ! 10 \<noteq> pkt ! 10"
    using p(3) by (simp add: u8_succ_neq)
  then have ne: "p \<noteq> pkt"
    by auto
  have "tc_iparams p = tc_iparams pkt + 1" "tc_fparams p = tc_fparams pkt"
    "tc_sparams p = tc_sparams pkt"
    using p(3) fr [of 9] fr [of 11]
    by (simp_all add: tc_fparams_def tc_iparams_def tc_sparams_def)
  with p(1) ne ld
  show "\<exists>pkt'. tcpkt_addint pkt w = Some pkt' \<and> pkt' \<noteq> pkt \<and>
         tc_iparams pkt' = tc_iparams pkt + 1 \<and>
         tc_fparams pkt' = tc_fparams pkt \<and> tc_sparams pkt' = tc_sparams pkt \<and>
         load32 pkt' (12 + 4 * ?f + 4 * ?n) = Some w"
    by simp
next
  let ?f = "unat (tc_fparams pkt)"
  let ?n = "unat (tc_iparams pkt)"
  assume a: "tc_sparams pkt \<noteq> 0 \<and> 0 \<notin> set s \<and> 12 + 4 * ?f + 4 * ?n + (length s + 1) \<le> 128"
  then have nz: "0 \<notin> set s"
    and fit: "12 + 4 * unat (pkt ! 9) + 4 * unat (pkt ! 10) + (length s + 1) \<le> 128"
    by (simp_all add: tc_fparams_def tc_iparams_def)
  from tcpkt_addstring_effect [OF len nz fit]
  obtain p where p: "tcpkt_addstring pkt (s @ [0]) = Some p" "length p = 128"
    "p ! 11 = of_nat (length s + 1)"
    and fr: "\<And>i. i < 128 \<Longrightarrow> i \<noteq> 11 \<Longrightarrow>
               \<not> (12 + 4 * unat (pkt ! 9) + 4 * unat (pkt ! 10) \<le> i \<and>
                  i < 12 + 4 * unat (pkt ! 9) + 4 * unat (pkt ! 10) + (length s + 1)) \<Longrightarrow>
               p ! i = pkt ! i"
    and cs: "c_string_at p (12 + 4 * unat (pkt ! 9) + 4 * unat (pkt ! 10)) = Some s"
    by blast
  have cnt: "tc_fparams p = tc_fparams pkt" "tc_iparams p = tc_iparams pkt"
    using fr [of 9] fr [of 10] by (simp_all add: tc_fparams_def tc_iparams_def)
  have "tcpkt_getstring p = 12 + 4 * unat (pkt ! 9) + 4 * unat (pkt ! 10)"
    using cnt by (simp add: tcpkt_getstring_def TC_HDRSIZE_def tc_fparams_def tc_iparams_def)
  with p(1,3) cnt cs
  show "\<exists>pkt'. tcpkt_addstring pkt (s @ [0]) = Some pkt' \<and>
         tc_sparams pkt' = of_nat (length s + 1) \<and>
         tc_fparams pkt' = tc_fparams pkt \<and> tc_iparams pkt' = tc_iparams pkt \<and>
         c_string_at pkt' (tcpkt_getstring pkt') = Some s"
    by (simp add: tc_sparams_def)
qed

theorem append_order_unchecked_witness:
  "length pkt_one_int = 128 \<and> tc_iparams pkt_one_int = 1 \<and>
   12 + 4 * unat (tc_fparams pkt_one_int) + 4 \<le> 128 \<and>
   (\<exists>pkt'. tcpkt_addfloat pkt_one_int 0x3F800000 = Some pkt' \<and> pkt' \<noteq> pkt_one_int \<and>
      tc_fparams pkt' = 1 \<and> tc_iparams pkt' = 1 \<and> load32 pkt' 12 = Some 0x3F800000) \<and>
   length pkt_str = 128 \<and> tc_sparams pkt_str = 2 \<and>
   12 + 4 * unat (tc_fparams pkt_str) + 4 * unat (tc_iparams pkt_str) + 4 \<le> 128 \<and>
   (\<exists>pkt'. tcpkt_addint pkt_str 7 = Some pkt' \<and> pkt' \<noteq> pkt_str \<and>
      tc_iparams pkt' = 1 \<and> tc_sparams pkt' = 2 \<and> load32 pkt' 12 = Some 7) \<and>
   (\<exists>pkt'. tcpkt_addstring pkt_str ([0x62, 0x63, 0x64] @ [0]) = Some pkt' \<and>
      tc_sparams pkt' = 4 \<and>
      c_string_at pkt' (tcpkt_getstring pkt') = Some [0x62, 0x63, 0x64])"
proof -
  note i = pkt_one_int_facts and s = pkt_str_facts
  have h1: "12 + 4 * unat (tc_fparams pkt_one_int) + 4 \<le> 128"
    and h2: "12 + 4 * unat (tc_fparams pkt_str) + 4 * unat (tc_iparams pkt_str) + 4 \<le> 128"
    and h3: "12 + 4 * unat (tc_fparams pkt_str) + 4 * unat (tc_iparams pkt_str)
               + (length [0x62, 0x63, 0x64 :: u8] + 1) \<le> 128"
    and h4: "0 \<notin> set [0x62, 0x63, 0x64 :: u8]"
    by (simp_all add: i s)
  from append_order_unchecked [OF i(1), of "0x3F800000" 0 "[]", THEN conjunct1] h1
  have a: "\<exists>pkt'. tcpkt_addfloat pkt_one_int 0x3F800000 = Some pkt' \<and> pkt' \<noteq> pkt_one_int \<and>
      tc_fparams pkt' = 1 \<and> tc_iparams pkt' = 1 \<and> load32 pkt' 12 = Some 0x3F800000"
    by (auto simp: i)
  from append_order_unchecked [OF s(1), of 0 7 "[]", THEN conjunct2, THEN conjunct1] h2
  have b: "\<exists>pkt'. tcpkt_addint pkt_str 7 = Some pkt' \<and> pkt' \<noteq> pkt_str \<and>
      tc_iparams pkt' = 1 \<and> tc_sparams pkt' = 2 \<and> load32 pkt' 12 = Some 7"
    by (auto simp: s)
  from append_order_unchecked [OF s(1), of 0 0 "[0x62, 0x63, 0x64]", THEN conjunct2, THEN conjunct2] h3 h4
  have c: "\<exists>pkt'. tcpkt_addstring pkt_str ([0x62, 0x63, 0x64] @ [0]) = Some pkt' \<and>
      tc_sparams pkt' = 4 \<and>
      c_string_at pkt' (tcpkt_getstring pkt') = Some [0x62, 0x63, 0x64]"
    by (auto simp: s)
  show ?thesis
    using i(1,3) s(1,4) h1 h2 a b c by blast
qed

text \<open>
  The claim C6 as stated fails. In the packet holding one int and no float,
  \<open>tcpkt_getfloat\<close> at index 0 (not below \<open>nfloat = 0\<close>) returns the bits of the int,
  \<open>tcpkt_getint\<close> at indices 1 and 28 (not below \<open>nint = 1\<close>) returns the zero bytes behind
  it, and both accessors at index -1 return the header bytes 8 to 11 (sts and the three
  counts): values read from the buffer, not errors.
\<close>

theorem accessor_range_counterexample:
  "tcpkt_addint (tcpkt_init []) 7 = Some pkt_one_int \<and>
   tc_fparams pkt_one_int = 0 \<and>
   tcpkt_getfloat pkt_one_int 0 = Some 7 \<and>
   tcpkt_getfloat pkt_one_int (- 1) = Some 0x00010000 \<and>
   tc_iparams pkt_one_int = 1 \<and>
   tcpkt_getint pkt_one_int 1 = Some 0 \<and>
   tcpkt_getint pkt_one_int 28 = Some 0 \<and>
   tcpkt_getint pkt_one_int (- 1) = Some 0x00010000"
  by (intro conjI) code_simp+

lemma unat_word_of_int32:
  assumes "0 \<le> k" and "k < 2 ^ 32"
  shows "unat (word_of_int k :: u32) = nat k"
proof -
  have "take_bit 32 k = k"
    using assms by (rule take_bit_int_eq_self)
  moreover have "unat (word_of_int k :: u32) = nat (take_bit 32 k)"
    by (subst unsigned_of_int) simp
  ultimately show ?thesis
    by simp
qed

lemma float_offset_signed:
  assumes "- 3 \<le> sint (idx :: u32)" and "sint idx \<le> 28"
  shows "unat (12 + idx * 4) = nat (12 + 4 * sint idx)"
proof -
  have "12 + idx * 4 = (word_of_int (12 + 4 * sint idx) :: u32)"
    by simp
  moreover have "0 \<le> 12 + 4 * sint idx" "12 + 4 * sint idx < 2 ^ 32"
    using assms by simp_all
  ultimately show ?thesis
    by (simp only: unat_word_of_int32)
qed

lemma int_offset_signed:
  assumes "0 \<le> 12 + 4 * int (unat (f :: u8)) + 4 * sint (idx :: u32)"
    and "12 + 4 * int (unat f) + 4 * sint idx + 4 \<le> 128"
  shows "unat (12 + ucast f * 4 + idx * 4 :: u32) = nat (12 + 4 * int (unat f) + 4 * sint idx)"
proof -
  have "(ucast f :: u32) = word_of_int (int (unat f))"
    by simp
  then have "12 + ucast f * 4 + idx * 4 =
             (word_of_int (12 + 4 * int (unat f) + 4 * sint idx) :: u32)"
    by simp
  moreover have "12 + 4 * int (unat f) + 4 * sint idx < 2 ^ 32"
    using assms(2) by simp
  ultimately show ?thesis
    using assms(1) by (simp only: unat_word_of_int32)
qed

text \<open>
  C6, as amended. The accessors check no index against the counts and report no error.
  The slot offset is \<open>12 + 4 * idx\<close> for \<open>tcpkt_getfloat\<close> and \<open>12 + 4 * nfloat + 4 * idx\<close> for
  \<open>tcpkt_getint\<close>, computed modulo \<open>2 ^ 32\<close>. For every 128-byte packet and every index,
  negative ones included, whose slot lies inside the buffer (\<open>- 3 \<le> idx \<le> 28\<close> for
  the float accessor, \<open>0 \<le> 12 + 4 * nfloat + 4 * idx \<le> 124\<close> for the int accessor) the
  accessor returns the little-endian word at that offset, whether or not \<open>idx\<close> is below
  \<open>nfloat\<close> or \<open>nint\<close>. In general the result is the word at the wrapped offset when that
  is at most 124, and otherwise the read leaves the packet object.
\<close>

theorem accessors_unchecked:
  assumes len: "length pkt = 128"
  shows
    "(- 3 \<le> sint idx \<and> sint idx \<le> 28 \<longrightarrow>
      tcpkt_getfloat pkt idx =
        Some (le_word32 [pkt ! nat (12 + 4 * sint idx), pkt ! (nat (12 + 4 * sint idx) + 1),
                         pkt ! (nat (12 + 4 * sint idx) + 2),
                         pkt ! (nat (12 + 4 * sint idx) + 3)])) \<and>
     (0 \<le> 12 + 4 * int (unat (tc_fparams pkt)) + 4 * sint idx \<and>
      12 + 4 * int (unat (tc_fparams pkt)) + 4 * sint idx + 4 \<le> 128 \<longrightarrow>
      tcpkt_getint pkt idx =
        Some (le_word32
          [pkt ! nat (12 + 4 * int (unat (tc_fparams pkt)) + 4 * sint idx),
           pkt ! (nat (12 + 4 * int (unat (tc_fparams pkt)) + 4 * sint idx) + 1),
           pkt ! (nat (12 + 4 * int (unat (tc_fparams pkt)) + 4 * sint idx) + 2),
           pkt ! (nat (12 + 4 * int (unat (tc_fparams pkt)) + 4 * sint idx) + 3)])) \<and>
     tcpkt_getfloat pkt idx =
       (if unat (12 + idx * 4) + 4 \<le> 128
        then Some (le_word32 [pkt ! unat (12 + idx * 4), pkt ! (unat (12 + idx * 4) + 1),
                              pkt ! (unat (12 + idx * 4) + 2), pkt ! (unat (12 + idx * 4) + 3)])
        else None) \<and>
     tcpkt_getint pkt idx =
       (if unat (12 + ucast (tc_fparams pkt) * 4 + idx * 4 :: u32) + 4 \<le> 128
        then Some (le_word32
          [pkt ! unat (12 + ucast (tc_fparams pkt) * 4 + idx * 4 :: u32),
           pkt ! (unat (12 + ucast (tc_fparams pkt) * 4 + idx * 4 :: u32) + 1),
           pkt ! (unat (12 + ucast (tc_fparams pkt) * 4 + idx * 4 :: u32) + 2),
           pkt ! (unat (12 + ucast (tc_fparams pkt) * 4 + idx * 4 :: u32) + 3)])
        else None)"
proof -
  have ld: "load32 pkt off =
      (if off + 4 \<le> 128
       then Some (le_word32 [pkt ! off, pkt ! (off + 1), pkt ! (off + 2), pkt ! (off + 3)])
       else None)" for off
    using len by (simp add: load32_nth) (simp add: load32_def mem_read_def)
  have gf: "tcpkt_getfloat pkt idx = load32 pkt (unat (12 + idx * 4))"
    by (simp add: tcpkt_getfloat_def TC_HDRSIZE_def)
  have gi: "tcpkt_getint pkt idx =
            load32 pkt (unat (12 + ucast (tc_fparams pkt) * 4 + idx * 4 :: u32))"
    by (simp add: tcpkt_getint_def TC_HDRSIZE_def)
  have a: "tcpkt_getfloat pkt idx =
        Some (le_word32 [pkt ! nat (12 + 4 * sint idx), pkt ! (nat (12 + 4 * sint idx) + 1),
                         pkt ! (nat (12 + 4 * sint idx) + 2),
                         pkt ! (nat (12 + 4 * sint idx) + 3)])"
    if "- 3 \<le> sint idx \<and> sint idx \<le> 28"
  proof -
    have "unat (12 + idx * 4) = nat (12 + 4 * sint idx)"
      using that by (intro float_offset_signed) simp_all
    moreover have "nat (12 + 4 * sint idx) + 4 \<le> 128"
      using that by linarith
    ultimately show ?thesis
      by (simp only: gf ld if_True)
  qed
  have b: "tcpkt_getint pkt idx =
        Some (le_word32
          [pkt ! nat (12 + 4 * int (unat (tc_fparams pkt)) + 4 * sint idx),
           pkt ! (nat (12 + 4 * int (unat (tc_fparams pkt)) + 4 * sint idx) + 1),
           pkt ! (nat (12 + 4 * int (unat (tc_fparams pkt)) + 4 * sint idx) + 2),
           pkt ! (nat (12 + 4 * int (unat (tc_fparams pkt)) + 4 * sint idx) + 3)])"
    if "0 \<le> 12 + 4 * int (unat (tc_fparams pkt)) + 4 * sint idx \<and>
        12 + 4 * int (unat (tc_fparams pkt)) + 4 * sint idx + 4 \<le> 128"
  proof -
    have "unat (12 + ucast (tc_fparams pkt) * 4 + idx * 4 :: u32) =
          nat (12 + 4 * int (unat (tc_fparams pkt)) + 4 * sint idx)"
      using that by (intro int_offset_signed) simp_all
    moreover have "nat (12 + 4 * int (unat (tc_fparams pkt)) + 4 * sint idx) + 4 \<le> 128"
      using that by linarith
    ultimately show ?thesis
      by (simp only: gi ld if_True)
  qed
  show ?thesis
    using a b by (simp only: gf gi ld) simp
qed

theorem accessors_unchecked_witness:
  "length pkt_one_int = 128 \<and> tc_fparams pkt_one_int = 0 \<and> tc_iparams pkt_one_int = 1 \<and>
   - 3 \<le> sint (- 1 :: u32) \<and> sint (- 1 :: u32) \<le> 28 \<and>
   tcpkt_getfloat pkt_one_int (- 1) = Some 0x00010000 \<and>
   0 \<le> 12 + 4 * int (unat (tc_fparams pkt_one_int)) + 4 * sint (- 1 :: u32) \<and>
   12 + 4 * int (unat (tc_fparams pkt_one_int)) + 4 * sint (- 1 :: u32) + 4 \<le> 128 \<and>
   tcpkt_getint pkt_one_int (- 1) = Some 0x00010000 \<and>
   - 3 \<le> sint (5 :: u32) \<and> sint (5 :: u32) \<le> 28 \<and>
   tcpkt_getfloat pkt_one_int 5 = Some 0 \<and>
   tcpkt_getfloat pkt_one_int 29 = None"
proof -
  note i = pkt_one_int_facts
  have h1: "- 3 \<le> sint (- 1 :: u32) \<and> sint (- 1 :: u32) \<le> 28"
    and h2: "0 \<le> 12 + 4 * int (unat (tc_fparams pkt_one_int)) + 4 * sint (- 1 :: u32) \<and>
       12 + 4 * int (unat (tc_fparams pkt_one_int)) + 4 * sint (- 1 :: u32) + 4 \<le> 128"
    and h3: "- 3 \<le> sint (5 :: u32) \<and> sint (5 :: u32) \<le> 28"
    by (simp_all add: i)
  have hdr: "pkt_one_int ! 8 = 0" "pkt_one_int ! 9 = 0" "pkt_one_int ! 10 = 1"
    "pkt_one_int ! 11 = 0"
    and tail: "pkt_one_int ! 32 = 0" "pkt_one_int ! 33 = 0" "pkt_one_int ! 34 = 0"
    "pkt_one_int ! 35 = 0"
    by code_simp+
  have w: "le_word32 [0, 0, 1, 0] = 0x00010000" "le_word32 [0, 0, 0, 0] = 0"
    by (simp_all add: le_word32_def)
  from accessors_unchecked [OF i(1), of "- 1", THEN conjunct1] h1
  have a: "tcpkt_getfloat pkt_one_int (- 1) = Some 0x00010000"
    by (simp add: hdr w)
  from accessors_unchecked [OF i(1), of "- 1", THEN conjunct2, THEN conjunct1] h2
  have b: "tcpkt_getint pkt_one_int (- 1) = Some 0x00010000"
    by (simp add: hdr w i)
  from accessors_unchecked [OF i(1), of 5, THEN conjunct1] h3
  have c: "tcpkt_getfloat pkt_one_int 5 = Some 0"
    by (simp add: tail w)
  from accessors_unchecked [OF i(1), of 29, THEN conjunct2, THEN conjunct2, THEN conjunct1]
  have d: "tcpkt_getfloat pkt_one_int 29 = None"
    by simp
  show ?thesis
    using i(1,2,3) h1 h2 h3 a b c d by blast
qed

section \<open>The decoder\<close>

lemma expected_total_ge: "12 \<le> expected_total bytes"
  by (simp add: expected_total_def)

lemma gate_crc_spec:
  assumes "expected_total bytes \<le> 128" and "expected_total bytes \<le> length bytes"
  shows "gate_crc bytes =
           (if crc_spec ((take (expected_total bytes) bytes)[4 := 0, 5 := 0])
                 = le_word16 [bytes ! 4, bytes ! 5]
            then Inr () else Inl ERR_CRC)"
proof -
  let ?t = "expected_total bytes"
  let ?z = "(take ?t bytes)[4 := 0, 5 := 0]"
  have ge: "12 \<le> ?t"
    by (rule expected_total_ge)
  have u: "unat (of_nat ?t :: u16) = ?t"
    using assms(1) by (simp add: unat_of_nat)
  then have nz: "(of_nat ?t :: u16) \<noteq> 0"
    using ge by (metis not_numeral_le_zero unsigned_0)
  have l: "length ?z = ?t"
    using assms(2) by simp
  have "crc16 ?z (of_nat ?t) = Some (crc_spec (take (unat (of_nat ?t :: u16)) ?z))"
    using nz u l by (intro crc16_take) simp_all
  then have "crc16 ?z (of_nat ?t) = Some (crc_spec ?z)"
    using u l by simp
  then show ?thesis
    by (simp add: gate_crc_def)
qed

text \<open>
  C5. \<open>parse\<close> checks, in this order and stopping at the first failure: at least 12 bytes
  (\<open>ERR_SHORT\<close>), the seal (\<open>ERR_SEAL\<close>), the declared total at most 128 and at most the
  slice length (\<open>ERR_LENGTH\<close>), a zero byte at index \<open>total - 1\<close> when \<open>nstr > 0\<close>
  (\<open>ERR_STRING\<close>), and the CRC of the first \<open>total\<close> bytes with positions 4 and 5 zeroed
  against the little-endian crc field (\<open>ERR_CRC\<close>); otherwise it returns a view of the
  unchanged input.
\<close>

theorem parse_gates:
  "parse bytes =
     (if length bytes < 12 then Inl ERR_SHORT
      else if take 4 bytes \<noteq> [0xA1, 0x55, 0xBB, 0xA2] then Inl ERR_SEAL
      else if 128 < expected_total bytes \<or> length bytes < expected_total bytes
        then Inl ERR_LENGTH
      else if bytes ! 11 \<noteq> 0 \<and> bytes ! (expected_total bytes - 1) \<noteq> 0 then Inl ERR_STRING
      else if crc_spec ((take (expected_total bytes) bytes)[4 := 0, 5 := 0])
                \<noteq> le_word16 [bytes ! 4, bytes ! 5]
        then Inl ERR_CRC
      else Inr (View bytes))"
proof -
  have pos: "0 < unat (bytes ! 11) \<longleftrightarrow> bytes ! 11 \<noteq> 0"
    by (simp add: unat_gt_0)
  show ?thesis
  proof (cases "expected_total bytes \<le> 128 \<and> expected_total bytes \<le> length bytes")
    case True
    then show ?thesis
      by (simp add: parse_def and_then_def gate_short_def gate_seal_def gate_length_def
          gate_string_def gate_crc_spec pos TC_SEAL0_def TC_SEAL1_def TC_SEAL2_def
          TC_SEAL3_def not_less)
  next
    case False
    then show ?thesis
      by (auto simp: parse_def and_then_def gate_short_def gate_seal_def gate_length_def
          TC_SEAL0_def TC_SEAL1_def TC_SEAL2_def TC_SEAL3_def not_less not_le)
  qed
qed

theorem parse_gates_witness:
  "parse ping_bytes = Inr (View ping_bytes) \<and>
   parse (take 11 ping_bytes) = Inl ERR_SHORT \<and>
   parse (ping_bytes[0 := 0]) = Inl ERR_SEAL \<and>
   parse (ping_bytes[9 := 30]) = Inl ERR_LENGTH \<and>
   parse (ping_bytes[9 := 1]) = Inl ERR_LENGTH \<and>
   parse (ping_bytes[11 := 2] @ [0x61, 0x62]) = Inl ERR_STRING \<and>
   parse (ping_bytes[7 := 8]) = Inl ERR_CRC"
proof (intro conjI)
  show "parse ping_bytes = Inr (View ping_bytes)"
    by (subst parse_gates) code_simp
  show "parse (take 11 ping_bytes) = Inl ERR_SHORT"
    by (subst parse_gates) code_simp
  show "parse (ping_bytes[0 := 0]) = Inl ERR_SEAL"
    by (subst parse_gates) code_simp
  show "parse (ping_bytes[9 := 30]) = Inl ERR_LENGTH"
    by (subst parse_gates) code_simp
  show "parse (ping_bytes[9 := 1]) = Inl ERR_LENGTH"
    by (subst parse_gates) code_simp
  show "parse (ping_bytes[11 := 2] @ [0x61, 0x62]) = Inl ERR_STRING"
    by (subst parse_gates) code_simp
  show "parse (ping_bytes[7 := 8]) = Inl ERR_CRC"
    by (subst parse_gates) code_simp
qed

end
